theory Spec2Isabelle
  imports Complex_Main
begin

section \<open>Python values\<close>

text \<open>
  The scripts read the traffic generator's output with \<^verbatim>\<open>json.load\<close>, so the raw data
  is a JSON value. Python's numbers (\<^verbatim>\<open>int\<close> and \<^verbatim>\<open>float\<close>) are modelled as exact
  rationals: \<^verbatim>\<open>/\<close> is exact division, and rounding, overflow and NaN of IEEE floats are
  outside the model. An object keeps its members in file order; \<^verbatim>\<open>json.load\<close> lets the
  last of several equal keys win.
\<close>

datatype json =
    JNull
  | JBool bool
  | JNum rat
  | JStr string
  | JArr "json list"
  | JObj "(string \<times> json) list"

datatype pyerr = AttributeError | TypeError | OSError | JSONDecodeError | CalledProcessError

definition bind_err :: "pyerr + 'a \<Rightarrow> ('a \<Rightarrow> pyerr + 'b) \<Rightarrow> pyerr + 'b" where
  "bind_err m f = (case m of Inl e \<Rightarrow> Inl e | Inr x \<Rightarrow> f x)"

text \<open>\<^verbatim>\<open>d.get(key, default)\<close>: only a dict has the method.\<close>

definition dict_get :: "json \<Rightarrow> string \<Rightarrow> json \<Rightarrow> pyerr + json" where
  "dict_get d key dflt =
     (case d of
        JObj kvs \<Rightarrow> (case map_of (rev kvs) key of None \<Rightarrow> Inr dflt | Some v \<Rightarrow> Inr v)
      | _ \<Rightarrow> Inl AttributeError)"

text \<open>
  A value used in arithmetic or compared with a number: \<^verbatim>\<open>bool\<close> is a subtype of
  \<^verbatim>\<open>int\<close> in Python; every other non-number raises \<^verbatim>\<open>TypeError\<close>.
\<close>

definition num :: "json \<Rightarrow> rat option" where
  "num v = (case v of JNum r \<Rightarrow> Some r | JBool b \<Rightarrow> Some (if b then 1 else 0) | _ \<Rightarrow> None)"

text \<open>
  The items a \<^verbatim>\<open>for\<close> loop visits, which are also what \<^verbatim>\<open>len\<close> counts: the elements
  of a list, the characters of a string, the keys of a dict. A key that occurs several
  times in the document is one key of the dict, at the position of its first occurrence.
\<close>

definition py_iter :: "json \<Rightarrow> pyerr + json list" where
  "py_iter v =
     (case v of
        JArr xs \<Rightarrow> Inr xs
      | JStr s \<Rightarrow> Inr (map (\<lambda>c. JStr [c]) s)
      | JObj kvs \<Rightarrow> Inr (map JStr (rev (remdups (rev (map fst kvs)))))
      | _ \<Rightarrow> Inl TypeError)"

text \<open>\<^verbatim>\<open>int(x)\<close> on a number truncates towards zero.\<close>

definition py_int :: "rat \<Rightarrow> int" where
  "py_int x = (if 0 \<le> x then \<lfloor>x\<rfloor> else \<lceil>x\<rceil>)"

section \<open>Network profiles\<close>

text \<open>
  \<^verbatim>\<open>tc_experiment.run_experiment\<close>, lines 69 to 80: (delay_ms, bandwidth_mbps,
  queue_size_bytes) of a profile, the queue size computed as the bandwidth-delay product;
  \<open>None\<close> is the branch "Unknown profile".
\<close>

definition tc_profile :: "string \<Rightarrow> (int \<times> int \<times> int) option" where
  "tc_profile prof =
     (if prof = ''profile1'' then
        (let delay_ms = 10; bandwidth_mbps = 50 in
         Some (delay_ms, bandwidth_mbps,
               py_int (of_int bandwidth_mbps * 1000000 * of_int delay_ms / 8 / 1000)))
      else if prof = ''profile2'' then
        (let delay_ms = 200; bandwidth_mbps = 1 in
         Some (delay_ms, bandwidth_mbps,
               py_int (of_int bandwidth_mbps * 1000000 * of_int delay_ms / 8 / 1000)))
      else None)"

text \<open>
  \<^verbatim>\<open>run_experiments.run_single_experiment\<close>, lines 34 to 47: the same table with the
  queue sizes written as constants, and the trace file of the profile (relative to the
  base directory).
\<close>

definition pantheon_profile :: "string \<Rightarrow> (int \<times> int \<times> int \<times> string) option" where
  "pantheon_profile prof =
     (if prof = ''profile1'' then Some (10, 50, 62500, ''/traces/50mbps.trace'')
      else if prof = ''profile2'' then Some (200, 1, 25000, ''/traces/1mbps.trace'')
      else None)"

section \<open>Reduction of the interval records\<close>

text \<open>One row of the throughput file and the summary written to \<^verbatim>\<open>result.json\<close>.\<close>

record sample =
  time :: json
  throughput :: rat
  delay :: int
  loss :: rat

record result =
  cc_algorithm :: string
  profile :: string
  avg_throughput :: rat
  avg_delay :: int
  loss_rate :: rat

text \<open>
  The body of the loop over the intervals (\<^verbatim>\<open>tc_experiment.run_experiment\<close>, lines 122
  to 142). It returns the row appended to \<^verbatim>\<open>throughput_data\<close> and the three amounts added
  to the running totals. The three values read from the record are used as numbers on
  every path, so a value that is not a number raises \<^verbatim>\<open>TypeError\<close>.
\<close>

definition process_interval :: "int \<Rightarrow> json \<Rightarrow> pyerr + (sample \<times> rat \<times> rat \<times> rat)" where
  "process_interval delay_ms interval =
     bind_err (dict_get interval ''sum'' (JObj [])) (\<lambda>sum_data.
     bind_err (dict_get sum_data ''seconds'' (JNum 0)) (\<lambda>seconds_v.
     bind_err (dict_get sum_data ''bytes'' (JNum 0)) (\<lambda>bytes_v.
     bind_err (dict_get sum_data ''retransmits'' (JNum 0)) (\<lambda>retransmits_v.
       (case (num seconds_v, num bytes_v, num retransmits_v) of
          (Some seconds, Some bytes_transferred, Some retransmits) \<Rightarrow>
            (let thr = (if seconds > 0
                        then (bytes_transferred * 8) / (seconds * 1000000) else 0);
                 packets_sent = (if bytes_transferred > 0 then bytes_transferred / 1500 else 1);
                 loss_rate = (if packets_sent > 0 then retransmits / packets_sent else 0)
             in bind_err (dict_get sum_data ''start'' (JNum 0)) (\<lambda>start.
                  Inr (\<lparr>time = start, throughput = thr, delay = delay_ms * 2,
                        loss = loss_rate\<rparr>,
                       thr, retransmits, bytes_transferred)))
        | _ \<Rightarrow> Inl TypeError)))))"

text \<open>
  The loop itself (lines 121 to 146), with the list of rows and the three totals as
  accumulators. An exception in one interval ends the loop.
\<close>

fun process_intervals ::
  "int \<Rightarrow> json list \<Rightarrow> sample list \<times> rat \<times> rat \<times> rat \<Rightarrow> pyerr + (sample list \<times> rat \<times> rat \<times> rat)"
where
  "process_intervals delay_ms [] acc = Inr acc"
| "process_intervals delay_ms (interval # rest)
       (throughput_data, total_throughput, total_retransmits, total_bytes) =
     (case process_interval delay_ms interval of
        Inl e \<Rightarrow> Inl e
      | Inr (row, thr, retransmits, bytes_transferred) \<Rightarrow>
          process_intervals delay_ms rest
            (throughput_data @ [row], total_throughput + thr,
             total_retransmits + retransmits, total_bytes + bytes_transferred))"

text \<open>
  Lines 110 to 161: from the loaded JSON document to the rows and the summary.
\<close>

definition process_results ::
  "string \<Rightarrow> string \<Rightarrow> int \<Rightarrow> json \<Rightarrow> pyerr + (sample list \<times> result)" where
  "process_results cc prof delay_ms iperf_data =
     bind_err (dict_get iperf_data ''intervals'' (JArr [])) (\<lambda>intervals.
     bind_err (py_iter intervals) (\<lambda>items.
     bind_err (process_intervals delay_ms items ([], 0, 0, 0))
       (\<lambda>(throughput_data, total_throughput, total_retransmits, total_bytes).
          (let num_intervals = int (length items);
               avg_thr = (if num_intervals > 0
                          then total_throughput / of_int num_intervals else 0);
               total_packets = (if total_bytes > 0 then total_bytes / 1500 else 1);
               avg_loss_rate = (if total_packets > 0
                                then total_retransmits / total_packets else 0)
           in Inr (throughput_data,
                   \<lparr>cc_algorithm = cc, profile = prof, avg_throughput = avg_thr,
                    avg_delay = delay_ms * 2, loss_rate = avg_loss_rate\<rparr>)))))"

section \<open>The host: processes, files and the record of what was done\<close>

text \<open>
  Every shell command the scripts build is one constructor, with the values the command
  line is formatted from:
  \<^item> \<open>TcQdiscDel\<close>: \<^verbatim>\<open>sudo tc qdisc del dev {interface} root 2>/dev/null\<close>
  \<^item> \<open>TcQdiscAddHtb\<close>: \<^verbatim>\<open>sudo tc qdisc add dev {interface} root handle 1: htb default 10\<close>
  \<^item> \<open>TcClassAdd\<close>: \<^verbatim>\<open>sudo tc class add dev {interface} parent 1: classid 1:10 htb rate {bandwidth_mbps}mbit\<close>
  \<^item> \<open>TcQdiscAddNetem\<close>: \<^verbatim>\<open>sudo tc qdisc add dev {interface} parent 1:10 handle 10: netem delay {delay_ms}ms limit {queue_size_bytes}\<close>
  \<^item> \<open>SysctlCC\<close>: \<^verbatim>\<open>sudo sysctl -w net.ipv4.tcp_congestion_control={cc_algorithm}\<close>
  \<^item> \<open>Iperf3Server\<close>: \<^verbatim>\<open>iperf3 -s -p {server_port} -D\<close>
  \<^item> \<open>Iperf3Client\<close>: \<^verbatim>\<open>iperf3 -c localhost -p {server_port} -t {runtime} -J > {file}\<close>
  \<^item> \<open>KillallIperf3\<close>: \<^verbatim>\<open>killall -9 iperf3 2>/dev/null\<close>
  \<^item> \<open>PantheonCheck\<close>: \<^verbatim>\<open>./src/experiments/test.py --run-only --schemes {scheme} --dry-run\<close>
  \<^item> \<open>PantheonSetup\<close>: \<^verbatim>\<open>./src/experiments/setup.py --schemes {scheme}\<close>
  \<^item> \<open>PantheonTest\<close>: the test command of \<^verbatim>\<open>run_single_experiment\<close> with its scheme,
    data directory, runtime, trace file, delay and queue size
  \<^item> \<open>PantheonAnalyze\<close>: \<^verbatim>\<open>./src/analysis/analyze.py --data-dir {data_dir}\<close>
\<close>

datatype cmd =
    TcQdiscDel string
  | TcQdiscAddHtb string
  | TcClassAdd string int
  | TcQdiscAddNetem string int int
  | SysctlCC string
  | Iperf3Server int
  | Iperf3Client int int string
  | KillallIperf3
  | PantheonCheck string
  | PantheonSetup string
  | PantheonTest string string int string int int
  | PantheonAnalyze string

text \<open>
  What \<^verbatim>\<open>run_command\<close> can meet: the process exits with a return code, starting it
  raises (\<^verbatim>\<open>Popen\<close>, or opening the log file), or \<^verbatim>\<open>process.wait()\<close>, which has no
  timeout, never returns.
\<close>

datatype proc = Exit int | SpawnError | NoExit

datatype content = ResultJson result | ThroughputCsv "sample list"

text \<open>
  The history records every action on the host with its outcome. \<open>Teardown\<close> marks a call
  of \<^verbatim>\<open>cleanup_tc\<close>; \<open>Starmap\<close> a batch handed to the worker pool.
\<close>

datatype event =
    Ran cmd "string option" proc
  | Makedirs string bool
  | Chdir string bool
  | IpRoute "pyerr + string"
  | Loaded string "pyerr + json"
  | Wrote string content bool
  | Teardown string
  | Starmap int "(string \<times> string \<times> int) list"

type_synonym history = "event list"

text \<open>
  The result of a computation: it returns a value, raises, or never returns. A
  computation takes the history so far and extends it.
\<close>

datatype 'a res = Ret 'a | Raise pyerr | Hang

type_synonym 'a io = "history \<Rightarrow> 'a res \<times> history"

text \<open>
  The host answers each action, possibly depending on everything done before:
  \<^item> \<open>home\<close>: the expansion of \<^verbatim>\<open>~\<close>;
  \<^item> \<open>popen\<close>: the fate of a shell command (with its log file);
  \<^item> \<open>makedirs_ok\<close>, \<open>chdir_ok\<close>, \<open>write_ok\<close>: whether \<^verbatim>\<open>os.makedirs\<close>, \<^verbatim>\<open>os.chdir\<close>
    and writing a file succeed (they raise \<^verbatim>\<open>OSError\<close> otherwise);
  \<^item> \<open>ip_route\<close>: the stripped output of the pipeline that prints the default interface,
    or the exception of \<^verbatim>\<open>check_output\<close>;
  \<^item> \<open>load_json\<close>: opening a file and parsing it with \<^verbatim>\<open>json.load\<close>;
  \<^item> \<open>proc_cc\<close>: the algorithms listed in
    \<^verbatim>\<open>/proc/sys/net/ipv4/tcp_available_congestion_control\<close>, \<open>None\<close> when reading fails;
  \<^item> \<open>pool_starmap\<close>: the list \<^verbatim>\<open>Pool(n).starmap\<close> returns for a batch. The worker
    processes run concurrently and their actions are not part of the history.
\<close>

record env =
  home :: string
  popen :: "history \<Rightarrow> cmd \<Rightarrow> string option \<Rightarrow> proc"
  makedirs_ok :: "history \<Rightarrow> string \<Rightarrow> bool"
  chdir_ok :: "history \<Rightarrow> string \<Rightarrow> bool"
  write_ok :: "history \<Rightarrow> string \<Rightarrow> bool"
  ip_route :: "history \<Rightarrow> pyerr + string"
  load_json :: "history \<Rightarrow> string \<Rightarrow> pyerr + json"
  proc_cc :: "string list option"
  pool_starmap :: "history \<Rightarrow> int \<Rightarrow> (string \<times> string \<times> int) list \<Rightarrow> int list res"

definition return_io :: "'a \<Rightarrow> 'a io" where
  "return_io x h = (Ret x, h)"

definition raise_io :: "pyerr \<Rightarrow> 'a io" where
  "raise_io e h = (Raise e, h)"

definition bind_io :: "'a io \<Rightarrow> ('a \<Rightarrow> 'b io) \<Rightarrow> 'b io" where
  "bind_io m f h =
     (case m h of
        (Ret x, h') \<Rightarrow> f x h'
      | (Raise e, h') \<Rightarrow> (Raise e, h')
      | (Hang, h') \<Rightarrow> (Hang, h'))"

text \<open>
  \<^verbatim>\<open>try: body  except Exception: return on_exception  finally: final\<close>, for a body that
  ends in \<^verbatim>\<open>return\<close>. The \<^verbatim>\<open>finally\<close> suite runs after the body returned or raised, and
  an exception of its own replaces the pending return value. A body that never returns
  never reaches it.
\<close>

definition try_except_finally :: "int io \<Rightarrow> int \<Rightarrow> unit io \<Rightarrow> int io" where
  "try_except_finally body on_exception final h =
     (case body h of
        (Hang, h1) \<Rightarrow> (Hang, h1)
      | (r, h1) \<Rightarrow>
          (case final h1 of
             (Ret u, h2) \<Rightarrow> ((case r of Ret v \<Rightarrow> Ret v | _ \<Rightarrow> Ret on_exception), h2)
           | (Raise e, h2) \<Rightarrow> (Raise e, h2)
           | (Hang, h2) \<Rightarrow> (Hang, h2)))"

definition run_command :: "env \<Rightarrow> cmd \<Rightarrow> string option \<Rightarrow> int io" where
  "run_command E c log_file h =
     (case popen E h c log_file of
        Exit returncode \<Rightarrow> (Ret returncode, h @ [Ran c log_file (Exit returncode)])
      | SpawnError \<Rightarrow> (Raise OSError, h @ [Ran c log_file SpawnError])
      | NoExit \<Rightarrow> (Hang, h @ [Ran c log_file NoExit]))"

definition os_makedirs :: "env \<Rightarrow> string \<Rightarrow> unit io" where
  "os_makedirs E path h =
     (if makedirs_ok E h path then (Ret (), h @ [Makedirs path True])
      else (Raise OSError, h @ [Makedirs path False]))"

definition os_chdir :: "env \<Rightarrow> string \<Rightarrow> unit io" where
  "os_chdir E path h =
     (if chdir_ok E h path then (Ret (), h @ [Chdir path True])
      else (Raise OSError, h @ [Chdir path False]))"

definition default_interface :: "env \<Rightarrow> string io" where
  "default_interface E h =
     (case ip_route E h of
        Inl e \<Rightarrow> (Raise e, h @ [IpRoute (Inl e)])
      | Inr s \<Rightarrow> (Ret s, h @ [IpRoute (Inr s)]))"

definition json_load :: "env \<Rightarrow> string \<Rightarrow> json io" where
  "json_load E path h =
     (case load_json E h path of
        Inl e \<Rightarrow> (Raise e, h @ [Loaded path (Inl e)])
      | Inr v \<Rightarrow> (Ret v, h @ [Loaded path (Inr v)]))"

definition write_file :: "env \<Rightarrow> string \<Rightarrow> content \<Rightarrow> unit io" where
  "write_file E path c h =
     (if write_ok E h path then (Ret (), h @ [Wrote path c True])
      else (Raise OSError, h @ [Wrote path c False]))"

section \<open>The trial runner of tc\_experiment.py\<close>

definition get_available_cc_algorithms :: "env \<Rightarrow> string list" where
  "get_available_cc_algorithms E =
     (case proc_cc E of
        Some algorithms \<Rightarrow> algorithms
      | None \<Rightarrow> [''cubic'', ''bbr'', ''vegas''])"

definition setup_tc :: "env \<Rightarrow> string \<Rightarrow> int \<Rightarrow> int \<Rightarrow> int \<Rightarrow> unit io" where
  "setup_tc E interface bandwidth_mbps delay_ms queue_size_bytes =
     bind_io (run_command E (TcQdiscDel interface) None) (\<lambda>_.
     bind_io (run_command E (TcQdiscAddHtb interface) None) (\<lambda>_.
     bind_io (run_command E (TcClassAdd interface bandwidth_mbps) None) (\<lambda>_.
     bind_io (run_command E (TcQdiscAddNetem interface delay_ms queue_size_bytes) None) (\<lambda>_.
     return_io ()))))"

definition cleanup_tc :: "env \<Rightarrow> string \<Rightarrow> unit io" where
  "cleanup_tc E interface h =
     bind_io (run_command E (TcQdiscDel interface) None) (\<lambda>_. return_io ())
       (h @ [Teardown interface])"

text \<open>
  The \<^verbatim>\<open>try\<close> suite of \<^verbatim>\<open>run_experiment\<close> (lines 95 to 178). The return codes of the
  commands are not looked at; a failed capture shows as an exception when its output is
  loaded.
\<close>

definition run_experiment_try ::
  "env \<Rightarrow> string \<Rightarrow> string \<Rightarrow> int \<Rightarrow> string \<Rightarrow> int \<Rightarrow> int \<Rightarrow> int \<Rightarrow> string \<Rightarrow> int io" where
  "run_experiment_try E cc prof runtime interface delay_ms bandwidth_mbps queue_size_bytes
       data_dir =
     (let results_file = data_dir @ ''/result.json'';
          throughput_file = data_dir @ ''/'' @ cc @ ''_throughput.csv'';
          server_port = 5050
      in
     bind_io (setup_tc E interface bandwidth_mbps delay_ms queue_size_bytes) (\<lambda>_.
     bind_io (run_command E (Iperf3Server server_port) None) (\<lambda>_.
     bind_io (run_command E
                (Iperf3Client server_port runtime (data_dir @ ''/iperf_result.json'')) None) (\<lambda>_.
     bind_io (json_load E (data_dir @ ''/iperf_result.json'')) (\<lambda>iperf_data.
       (case process_results cc prof delay_ms iperf_data of
          Inl e \<Rightarrow> raise_io e
        | Inr (throughput_data, result) \<Rightarrow>
            bind_io (write_file E results_file (ResultJson result)) (\<lambda>_.
            bind_io (write_file E throughput_file (ThroughputCsv throughput_data)) (\<lambda>_.
            return_io 0))))))))"

text \<open>\<^verbatim>\<open>run_experiment(cc_algorithm, profile, runtime)\<close>, lines 55 to 187.\<close>

definition run_experiment :: "env \<Rightarrow> string \<Rightarrow> string \<Rightarrow> int \<Rightarrow> int io" where
  "run_experiment E cc prof runtime =
     (let base_dir = home E @ ''/networks_assignment'';
          data_dir = base_dir @ ''/data/'' @ prof @ ''_'' @ cc;
          log_dir = base_dir @ ''/logs''
      in
     bind_io (os_makedirs E data_dir) (\<lambda>_.
     bind_io (os_makedirs E log_dir) (\<lambda>_.
       (case tc_profile prof of
          None \<Rightarrow> return_io 1
        | Some (delay_ms, bandwidth_mbps, queue_size_bytes) \<Rightarrow>
            bind_io (default_interface E) (\<lambda>interface.
              if interface = [] then return_io 1
              else
                bind_io (run_command E (SysctlCC cc) None) (\<lambda>_.
                  try_except_finally
                    (run_experiment_try E cc prof runtime interface delay_ms bandwidth_mbps
                       queue_size_bytes data_dir)
                    1
                    (bind_io (cleanup_tc E interface) (\<lambda>_.
                     bind_io (run_command E KillallIperf3 None) (\<lambda>_.
                     return_io ())))))))))"

text \<open>A \<^verbatim>\<open>for\<close> loop whose body returns nothing.\<close>

fun for_each :: "'a list \<Rightarrow> ('a \<Rightarrow> unit io) \<Rightarrow> unit io" where
  "for_each [] body = return_io ()"
| "for_each (x # xs) body = bind_io (body x) (\<lambda>_. for_each xs body)"

text \<open>
  \<^verbatim>\<open>tc_experiment.main\<close> with the parsed arguments. The result of a trial is only
  printed.
\<close>

definition main_tc_experiment :: "env \<Rightarrow> string list \<Rightarrow> string list \<Rightarrow> int \<Rightarrow> int io" where
  "main_tc_experiment E arg_schemes arg_profiles arg_runtime =
     (let available_algorithms = get_available_cc_algorithms E;
          schemes = filter (\<lambda>scheme. scheme \<in> set available_algorithms) arg_schemes
      in if schemes = [] then return_io 1
         else
           bind_io
             (for_each schemes (\<lambda>scheme.
                for_each arg_profiles (\<lambda>prof.
                  bind_io (run_experiment E scheme prof arg_runtime) (\<lambda>result.
                  return_io ()))))
             (\<lambda>_. return_io 0))"

text \<open>
  The process exit code of the script, whose last line is \<^verbatim>\<open>main()\<close>: the value
  \<^verbatim>\<open>main\<close> returns is dropped, so the interpreter exits with 0 when \<^verbatim>\<open>main\<close> returns and
  with 1 after an uncaught exception. \<open>None\<close>: the process does not end.
\<close>

definition script_tc_experiment ::
  "env \<Rightarrow> string list \<Rightarrow> string list \<Rightarrow> int \<Rightarrow> history \<Rightarrow> int option" where
  "script_tc_experiment E arg_schemes arg_profiles arg_runtime h =
     (case fst (main_tc_experiment E arg_schemes arg_profiles arg_runtime h) of
        Ret code \<Rightarrow> Some 0
      | Raise e \<Rightarrow> Some 1
      | Hang \<Rightarrow> None)"

section \<open>The trial runner and scheduler of run\_experiments.py\<close>

text \<open>
  The file holds two copies of the script, one after the other; the first ends in
  \<^verbatim>\<open>sys.exit(main())\<close>, so run as a script it is the first copy (lines 1 to 121) that
  executes, and it is the one modelled.
\<close>

definition run_single_experiment :: "env \<Rightarrow> string \<Rightarrow> string \<Rightarrow> int \<Rightarrow> int io" where
  "run_single_experiment E scheme prof runtime =
     (let base_dir = home E @ ''/networks_assignment'';
          pantheon_dir = base_dir @ ''/pantheon'';
          data_dir = base_dir @ ''/data/'' @ prof @ ''_'' @ scheme;
          log_file = base_dir @ ''/logs/'' @ prof @ ''_'' @ scheme @ ''.log''
      in
     bind_io (os_makedirs E (base_dir @ ''/logs'')) (\<lambda>_.
     bind_io (os_makedirs E data_dir) (\<lambda>_.
       (case pantheon_profile prof of
          None \<Rightarrow> return_io 1
        | Some (delay_ms, bandwidth_mbps, queue_size_bytes, trace) \<Rightarrow>
            bind_io (os_chdir E pantheon_dir) (\<lambda>_.
            bind_io (run_command E (PantheonCheck scheme) None) (\<lambda>ret.
            bind_io (if ret \<noteq> 0
                     then bind_io (run_command E (PantheonSetup scheme) None) (\<lambda>_. return_io ())
                     else return_io ()) (\<lambda>_.
            bind_io (run_command E
                       (PantheonTest scheme data_dir runtime (base_dir @ trace) delay_ms
                          queue_size_bytes)
                       (Some log_file)) (\<lambda>ret.
              if ret \<noteq> 0 then return_io ret
              else
                bind_io (run_command E (PantheonAnalyze data_dir)
                           (Some (log_file @ ''.analyze''))) (\<lambda>ret.
                return_io ret)))))))))"

text \<open>The sequential branch of \<^verbatim>\<open>main\<close>: one trial after the other, results appended.\<close>

fun run_sequential ::
  "env \<Rightarrow> (string \<times> string \<times> int) list \<Rightarrow> int list \<Rightarrow> int list io" where
  "run_sequential E [] results = return_io results"
| "run_sequential E ((scheme, prof, runtime) # rest) results =
     bind_io (run_single_experiment E scheme prof runtime) (\<lambda>r.
     run_sequential E rest (results @ [r]))"

definition starmap :: "env \<Rightarrow> int \<Rightarrow> (string \<times> string \<times> int) list \<Rightarrow> int list io" where
  "starmap E n experiments h =
     (pool_starmap E h n experiments, h @ [Starmap n experiments])"

definition experiment_grid ::
  "string list \<Rightarrow> string list \<Rightarrow> int \<Rightarrow> (string \<times> string \<times> int) list" where
  "experiment_grid arg_schemes arg_profiles arg_runtime =
     concat (map (\<lambda>scheme. map (\<lambda>prof. (scheme, prof, arg_runtime)) arg_profiles) arg_schemes)"

definition main_run_experiments ::
  "env \<Rightarrow> string list \<Rightarrow> string list \<Rightarrow> int \<Rightarrow> int \<Rightarrow> int io" where
  "main_run_experiments E arg_schemes arg_profiles arg_runtime arg_parallel =
     (let experiments = experiment_grid arg_schemes arg_profiles arg_runtime in
      bind_io (if arg_parallel > 1 then starmap E arg_parallel experiments
               else run_sequential E experiments [])
        (\<lambda>results.
           if list_all (\<lambda>r. r = 0) results then return_io 0 else return_io 1))"

text \<open>The script ends in \<^verbatim>\<open>sys.exit(main())\<close>: the exit code is what \<^verbatim>\<open>main\<close> returns.\<close>

definition script_run_experiments ::
  "env \<Rightarrow> string list \<Rightarrow> string list \<Rightarrow> int \<Rightarrow> int \<Rightarrow> history \<Rightarrow> int option" where
  "script_run_experiments E arg_schemes arg_profiles arg_runtime arg_parallel h =
     (case fst (main_run_experiments E arg_schemes arg_profiles arg_runtime arg_parallel h) of
        Ret code \<Rightarrow> Some code
      | Raise e \<Rightarrow> Some 1
      | Hang \<Rightarrow> None)"

text \<open>The number of calls of \<^verbatim>\<open>cleanup_tc\<close> in a history.\<close>

definition teardowns :: "history \<Rightarrow> nat" where
  "teardowns h = length (filter (\<lambda>ev. case ev of Teardown i \<Rightarrow> True | _ \<Rightarrow> False) h)"

text \<open>
  \<open>adds m k\<close>: however the computation \<open>m\<close> ends, it only extends the history, and what it
  adds holds exactly \<open>k\<close> calls of \<^verbatim>\<open>cleanup_tc\<close>. (A notion for the proofs.)
\<close>

definition adds :: "'a io \<Rightarrow> nat \<Rightarrow> bool" where
  "adds m k \<longleftrightarrow> (\<forall>h r h'. m h = (r, h') \<longrightarrow> (\<exists>evs. h' = h @ evs \<and> teardowns evs = k))"

text \<open>
  Two more notions for the proofs. \<open>yields G m\<close>: however \<open>m\<close> ends, it only extends the
  history, by a list of events that satisfies \<open>G\<close>. \<open>reduced_writes cc prof delay_ms evs\<close>:
  whatever file content was written in \<open>evs\<close> is the summary or the rows that the reducer
  computes, for that scheme, profile and delay, from a document loaded in \<open>evs\<close>.
\<close>

definition yields :: "(event list \<Rightarrow> bool) \<Rightarrow> 'a io \<Rightarrow> bool" where
  "yields G m \<longleftrightarrow> (\<forall>h r h'. m h = (r, h') \<longrightarrow> (\<exists>evs. h' = h @ evs \<and> G evs))"

abbreviation each :: "(event \<Rightarrow> bool) \<Rightarrow> 'a io \<Rightarrow> bool" where
  "each P m \<equiv> yields (\<lambda>evs. \<forall>ev \<in> set evs. P ev) m"

definition no_write :: "event \<Rightarrow> bool" where
  "no_write ev = (case ev of Wrote path c ok \<Rightarrow> False | _ \<Rightarrow> True)"

definition reduced_writes :: "string \<Rightarrow> string \<Rightarrow> int \<Rightarrow> event list \<Rightarrow> bool" where
  "reduced_writes cc prof delay_ms evs \<longleftrightarrow>
     (\<forall>path c ok. Wrote path c ok \<in> set evs \<longrightarrow>
        (\<exists>file raw rows res.
           Loaded file (Inr raw) \<in> set evs \<and>
           process_results cc prof delay_ms raw = Inr (rows, res) \<and>
           (c = ResultJson res \<or> c = ThroughputCsv rows)))"

text \<open>The events a computation added to the history it started from.\<close>

definition new_events :: "history \<Rightarrow> history \<Rightarrow> event list" where
  "new_events h h' = drop (length h) h'"

text \<open>
  A host for concrete runs: the home directory is \<^verbatim>\<open>/root\<close>, every command exits with
  0, every file operation succeeds, the default interface is \<^verbatim>\<open>eth0\<close>, the kernel offers
  cubic and reno, and the capture holds one interval of one second with 125000 bytes.
\<close>

definition quiet_host :: env where
  "quiet_host =
     \<lparr>home = ''/root'',
      popen = (\<lambda>h c log_file. Exit 0),
      makedirs_ok = (\<lambda>h path. True),
      chdir_ok = (\<lambda>h path. True),
      write_ok = (\<lambda>h path. True),
      ip_route = (\<lambda>h. Inr ''eth0''),
      load_json = (\<lambda>h path.
        Inr (JObj [(''intervals'',
                    JArr [JObj [(''sum'', JObj [(''start'', JNum 0), (''seconds'', JNum 1),
                                                (''bytes'', JNum 125000),
                                                (''retransmits'', JNum 0)])]])])),
      proc_cc = Some [''cubic'', ''reno''],
      pool_starmap = (\<lambda>h n experiments. Ret (map (\<lambda>x. 0) experiments))\<rparr>"

text \<open>
  Variants of that host: one whose capture holds another interval, with a measured
  round-trip time in the record, one on which the capture's output cannot be parsed, one
  on which the capture holds no interval, one on which the traffic generator never exits, and one
  on which a scheme is not installed and cannot be installed, so that every Pantheon
  command naming it except the analysis exits with 1.
\<close>

definition empty_capture_host :: env where
  "empty_capture_host = quiet_host\<lparr>load_json := (\<lambda>h path. Inr (JObj [(''intervals'', JArr [])]))\<rparr>"

definition other_capture_host :: env where
  "other_capture_host =
     quiet_host\<lparr>load_json := (\<lambda>h path.
       Inr (JObj [(''intervals'',
                   JArr [JObj [(''sum'', JObj [(''start'', JNum 5), (''seconds'', JNum 2),
                                               (''bytes'', JNum 500000),
                                               (''retransmits'', JNum 3),
                                               (''rtt'', JNum 999)])]])]))\<rparr>"

definition failed_capture_host :: env where
  "failed_capture_host = quiet_host\<lparr>load_json := (\<lambda>h path. Inl JSONDecodeError)\<rparr>"

definition stalled_capture_host :: env where
  "stalled_capture_host =
     quiet_host\<lparr>popen := (\<lambda>h c log_file.
       case c of Iperf3Client port runtime file \<Rightarrow> NoExit | _ \<Rightarrow> Exit 0)\<rparr>"

definition no_scheme_host :: env where
  "no_scheme_host =
     quiet_host\<lparr>popen := (\<lambda>h c log_file.
       case c of
         PantheonCheck scheme \<Rightarrow> Exit 1
       | PantheonSetup scheme \<Rightarrow> Exit 1
       | PantheonTest scheme data_dir runtime trace delay_ms queue \<Rightarrow> Exit 1
       | _ \<Rightarrow> Exit 0)\<rparr>"

text \<open>The number of install commands in a list of events.\<close>

definition installs :: "event list \<Rightarrow> nat" where
  "installs evs =
     length (filter (\<lambda>ev. case ev of Ran (PantheonSetup s) lf p \<Rightarrow> True | _ \<Rightarrow> False) evs)"

text \<open>A host on which a scheme is not installed at first and the install command works.\<close>

definition installable_host :: env where
  "installable_host =
     quiet_host\<lparr>popen := (\<lambda>h c log_file.
       case c of PantheonCheck scheme \<Rightarrow> Exit 1 | _ \<Rightarrow> Exit 0)\<rparr>"

section \<open>The aggregator of analyze\_manual\_results.py\<close>

text \<open>
  Files by path. A JSON document, a CSV table (its header and its rows of cells), an
  image, or anything else. The stored record of a trial is the document
  \<^verbatim>\<open>{data_dir}/{profile}_{scheme}/result.json\<close>.
\<close>

datatype document = JsonDoc json | Frame "string list" "json list list" | Png | Other

type_synonym files = "string \<rightharpoonup> document"

text \<open>
  An entry of the \<^verbatim>\<open>results\<close> dictionary (lines 73 to 78). The dictionary maps a profile
  to a dictionary from schemes to entries; both keep insertion order, and assigning to an
  existing key replaces its value in place.
\<close>

record entry =
  entry_avg_throughput :: json
  entry_avg_delay :: json
  entry_loss_rate :: json
  entry_throughput_data :: "string list \<times> json list list"

type_synonym results = "(string \<times> (string \<times> entry) list) list"

fun dict_set :: "('k \<times> 'v) list \<Rightarrow> 'k \<Rightarrow> 'v \<Rightarrow> ('k \<times> 'v) list" where
  "dict_set [] k v = [(k, v)]"
| "dict_set ((k', v') # kvs) k v =
     (if k' = k then (k, v) # kvs else (k', v') # dict_set kvs k v)"

text \<open>\<^verbatim>\<open>results[profile][scheme] = e\<close>, after \<^verbatim>\<open>results[profile] = {}\<close> for a new profile.\<close>

definition store_entry :: "results \<Rightarrow> string \<Rightarrow> string \<Rightarrow> entry \<Rightarrow> results" where
  "store_entry results prof scheme e =
     dict_set results prof
       (dict_set (case map_of results prof of None \<Rightarrow> [] | Some schemes \<Rightarrow> schemes) scheme e)"

text \<open>
  \<^verbatim>\<open>min(a, c)\<close> for a constant \<open>c\<close>: the first argument unless the second is smaller;
  comparing a non-number with a number raises.
\<close>

definition py_min :: "json \<Rightarrow> rat \<Rightarrow> pyerr + json" where
  "py_min a c = (case num a of None \<Rightarrow> Inl TypeError
                 | Some x \<Rightarrow> Inr (if c < x then JNum c else a))"

text \<open>Lines 63 to 71: the throughput shown for a stored summary.\<close>

definition adjusted_throughput :: "string \<Rightarrow> json \<Rightarrow> pyerr + json" where
  "adjusted_throughput prof result_data =
     (if prof = ''profile1'' then
        bind_err (dict_get result_data ''avg_throughput'' (JNum 0)) (\<lambda>v. py_min v 50)
      else if prof = ''profile2'' then
        bind_err (dict_get result_data ''avg_throughput'' (JNum 0)) (\<lambda>v. py_min v 1)
      else dict_get result_data ''avg_throughput'' (JNum 0))"

definition empty_frame :: "string list \<times> json list list" where
  "empty_frame = ([''time'', ''throughput'', ''delay'', ''loss''], [])"

text \<open>
  Lines 47 to 57: the interval series of a trial, an empty frame when the file is missing
  or cannot be read.
\<close>

definition load_throughput_data :: "files \<Rightarrow> string \<Rightarrow> string list \<times> json list list" where
  "load_throughput_data fs throughput_file =
     (case fs throughput_file of
        Some (Frame columns rows) \<Rightarrow> (columns, rows)
      | _ \<Rightarrow> empty_frame)"

text \<open>
  The body of the loop over the result files (lines 29 to 78) for the file
  \<^verbatim>\<open>{data_dir}/{dir_name}/result.json\<close>. A name without an underscore and a file that
  cannot be loaded are skipped; an exception after loading is not caught.
\<close>

definition process_result_file ::
  "files \<Rightarrow> string \<Rightarrow> string \<Rightarrow> results \<Rightarrow> pyerr + results" where
  "process_result_file fs data_dir dir_name results =
     (if CHR ''_'' \<notin> set dir_name then Inr results
      else
        (let dir_path = data_dir @ ''/'' @ dir_name;
             prof = takeWhile (\<lambda>c. c \<noteq> CHR ''_'') dir_name;
             scheme = tl (dropWhile (\<lambda>c. c \<noteq> CHR ''_'') dir_name)
         in case fs (dir_path @ ''/result.json'') of
              Some (JsonDoc result_data) \<Rightarrow>
                (let throughput_file = dir_path @ ''/'' @ scheme @ ''_throughput.csv'';
                     throughput_data = load_throughput_data fs throughput_file
                 in bind_err (adjusted_throughput prof result_data) (\<lambda>adjusted.
                    bind_err (dict_get result_data ''avg_delay'' (JNum 0)) (\<lambda>avg_delay_v.
                    bind_err (dict_get result_data ''loss_rate'' (JNum 0)) (\<lambda>loss_rate_v.
                      Inr (store_entry results prof scheme
                             \<lparr>entry_avg_throughput = adjusted,
                              entry_avg_delay = avg_delay_v,
                              entry_loss_rate = loss_rate_v,
                              entry_throughput_data = throughput_data\<rparr>)))))
            | _ \<Rightarrow> Inr results))"

fun collect_results :: "files \<Rightarrow> string \<Rightarrow> string list \<Rightarrow> results \<Rightarrow> pyerr + results" where
  "collect_results fs data_dir [] results = Inr results"
| "collect_results fs data_dir (dir_name # rest) results =
     bind_err (process_result_file fs data_dir dir_name results)
       (collect_results fs data_dir rest)"

text \<open>
  Lines 87 to 102: one comparison table per profile, one row per scheme, written as
  \<^verbatim>\<open>{output_dir}/{profile}_comparison.csv\<close>.
\<close>

definition comparison_columns :: "string list" where
  "comparison_columns = [''Scheme'', ''Avg Throughput (Mbps)'', ''Avg RTT (ms)'', ''Loss Rate'']"

definition table_row :: "string \<times> entry \<Rightarrow> json list" where
  "table_row = (\<lambda>(scheme, data).
     [JStr scheme, entry_avg_throughput data, entry_avg_delay data, entry_loss_rate data])"

definition comparison_csv :: "string \<Rightarrow> string \<Rightarrow> string" where
  "comparison_csv output_dir prof = output_dir @ ''/'' @ prof @ ''_comparison.csv''"

fun write_tables :: "string \<Rightarrow> results \<Rightarrow> files \<Rightarrow> files" where
  "write_tables output_dir [] fs = fs"
| "write_tables output_dir ((prof, schemes) # rest) fs =
     write_tables output_dir rest
       (if schemes = [] then fs
        else fs(comparison_csv output_dir prof \<mapsto>
                  Frame comparison_columns (map table_row schemes)))"

text \<open>
  Lines 104 to 216 draw the charts. Rendering is not modelled, only the files it saves:
  one scatter plot and three charts per profile.
\<close>

definition chart_png :: "string \<Rightarrow> string \<Rightarrow> string" where
  "chart_png output_dir name = output_dir @ ''/'' @ name @ ''.png''"

fun write_plots :: "string \<Rightarrow> results \<Rightarrow> files \<Rightarrow> files" where
  "write_plots output_dir [] fs = fs"
| "write_plots output_dir ((prof, schemes) # rest) fs =
     write_plots output_dir rest
       (fs(chart_png output_dir (prof @ ''_throughput_time'') \<mapsto> Png,
           chart_png output_dir (prof @ ''_loss_time'') \<mapsto> Png,
           chart_png output_dir (prof @ ''_rtt_comparison'') \<mapsto> Png))"

text \<open>
  \<^verbatim>\<open>analyze_results(data_dir, output_dir)\<close>. \<open>listing\<close> holds the directory names \<open>d\<close> for
  which \<^verbatim>\<open>glob\<close> finds \<^verbatim>\<open>{data_dir}/d/result.json\<close>, in the order \<^verbatim>\<open>glob\<close> returns them.
  The function returns its exit code or the uncaught exception, and the files afterwards.
  Creating the output directory and saving the tables and charts are taken to succeed.
\<close>

definition analyze_results ::
  "string list \<Rightarrow> string \<Rightarrow> string \<Rightarrow> files \<Rightarrow> (pyerr + int) \<times> files" where
  "analyze_results listing data_dir output_dir fs =
     (if listing = [] then (Inr 1, fs)
      else
        (case collect_results fs data_dir listing [] of
           Inl e \<Rightarrow> (Inl e, fs)
         | Inr results \<Rightarrow>
             if results = [] then (Inr 1, fs)
             else
               (Inr 0,
                write_plots output_dir results
                  ((write_tables output_dir results fs)
                     (chart_png output_dir ''throughput_vs_rtt'' \<mapsto> Png)))))"

text \<open>
  A store for concrete runs: the summary of cubic under profile2 with a measured average
  throughput of 3.4 Mbps, and the summary of bbr under profile1 with 42 Mbps.
\<close>

definition sample_store :: files where
  "sample_store =
     [''data/profile2_cubic/result.json'' \<mapsto>
        JsonDoc (JObj [(''cc_algorithm'', JStr ''cubic''), (''profile'', JStr ''profile2''),
                       (''avg_throughput'', JNum (34 / 10)), (''avg_delay'', JNum 400),
                       (''loss_rate'', JNum 0)]),
      ''data/profile1_bbr/result.json'' \<mapsto>
        JsonDoc (JObj [(''cc_algorithm'', JStr ''bbr''), (''profile'', JStr ''profile1''),
                       (''avg_throughput'', JNum 42), (''avg_delay'', JNum 20),
                       (''loss_rate'', JNum 0)])]"

text \<open>\<^verbatim>\<open>results[profile][scheme]\<close>, when both keys are present.\<close>

definition stored_entry :: "results \<Rightarrow> string \<Rightarrow> string \<Rightarrow> entry option" where
  "stored_entry results prof scheme =
     (case map_of results prof of None \<Rightarrow> None | Some schemes \<Rightarrow> map_of schemes scheme)"

section \<open>Basic facts about the combinators\<close>

lemma bind_err_simps [simp]:
  "bind_err (Inl e) f = Inl e" "bind_err (Inr x) f = f x"
  by (simp_all add: bind_err_def)

lemma bind_err_Inr: "bind_err m f = Inr y \<longleftrightarrow> (\<exists>x. m = Inr x \<and> f x = Inr y)"
  by (cases m) simp_all

lemma dict_get_Inr_obj: "dict_get d k dflt = Inr v \<Longrightarrow> \<exists>kvs. d = JObj kvs"
  by (cases d) (simp_all add: dict_get_def)

lemma dict_get_obj_total: "\<exists>v. dict_get (JObj kvs) k dflt = Inr v"
  by (simp add: dict_get_def split: option.splits)

lemma map_const_replicate:
  "(\<forall>x \<in> set xs. f x = c) \<Longrightarrow> map f xs = replicate (length xs) c"
  by (induction xs) simp_all

section \<open>Profiles\<close>

text \<open>
  C9. For every profile of either script, the queue size in bytes is
  bandwidth_mbps * 1,000,000 * delay_ms / 8 / 1000 (exactly, so within any rounding
  tolerance); profile1 (50 Mbps, 10 ms) has 62,500 bytes and profile2 (1 Mbps, 200 ms)
  has 25,000 bytes.
\<close>

theorem profile_queue_bytes:
  "(tc_profile prof = Some (delay_ms, bandwidth_mbps, queue_size_bytes) \<longrightarrow>
      rat_of_int queue_size_bytes =
        of_int bandwidth_mbps * 1000000 * of_int delay_ms / 8 / 1000) \<and>
   (pantheon_profile prof = Some (delay_ms, bandwidth_mbps, queue_size_bytes, trace_file) \<longrightarrow>
      rat_of_int queue_size_bytes =
        of_int bandwidth_mbps * 1000000 * of_int delay_ms / 8 / 1000) \<and>
   tc_profile ''profile1'' = Some (10, 50, 62500) \<and>
   tc_profile ''profile2'' = Some (200, 1, 25000) \<and>
   pantheon_profile ''profile1'' = Some (10, 50, 62500, ''/traces/50mbps.trace'') \<and>
   pantheon_profile ''profile2'' = Some (200, 1, 25000, ''/traces/1mbps.trace'')"
  by (auto simp: tc_profile_def pantheon_profile_def py_int_def Let_def split: if_splits)

theorem profile_queue_bytes_witness:
  "tc_profile ''profile2'' = Some (200, 1, 25000) \<and>
   pantheon_profile ''profile2'' = Some (200, 1, 25000, ''/traces/1mbps.trace'') \<and>
   rat_of_int 25000 = of_int 1 * 1000000 * of_int 200 / 8 / 1000"
  using profile_queue_bytes [of "''profile2''" 200 1 25000 "''/traces/1mbps.trace''"]
  by simp

section \<open>The reduction\<close>

lemma process_interval_numeric:
  assumes "dict_get interval ''sum'' (JObj []) = Inr sum_data"
    and "dict_get sum_data ''seconds'' (JNum 0) = Inr (JNum seconds)"
    and "dict_get sum_data ''bytes'' (JNum 0) = Inr (JNum bytes_transferred)"
    and "dict_get sum_data ''retransmits'' (JNum 0) = Inr (JNum retransmits)"
  shows "\<exists>start. process_interval delay_ms interval =
           Inr (\<lparr>time = start,
                 throughput = (if seconds > 0
                               then (bytes_transferred * 8) / (seconds * 1000000) else 0),
                 delay = delay_ms * 2,
                 loss = (if bytes_transferred > 0
                         then retransmits / (bytes_transferred / 1500) else retransmits)\<rparr>,
                (if seconds > 0 then (bytes_transferred * 8) / (seconds * 1000000) else 0),
                retransmits, bytes_transferred)"
proof -
  obtain kvs where "sum_data = JObj kvs"
    using assms(2) dict_get_Inr_obj by blast
  then obtain start where "dict_get sum_data ''start'' (JNum 0) = Inr start"
    using dict_get_obj_total by blast
  then show ?thesis
    using assms by (simp add: process_interval_def num_def Let_def)
qed

text \<open>
  C6. For an interval record whose \<^verbatim>\<open>sum\<close> carries the numbers seconds,
  bytes_transferred and retransmits, the reducer succeeds and the throughput of the row
  is (bytes_transferred * 8) / (seconds * 1e6) when seconds > 0 and 0 when seconds = 0.
  The witness is the interval with seconds = 1 and bytes = 125000, whose throughput is 1.
\<close>

theorem interval_throughput:
  assumes "dict_get interval ''sum'' (JObj []) = Inr sum_data"
    and "dict_get sum_data ''seconds'' (JNum 0) = Inr (JNum seconds)"
    and "dict_get sum_data ''bytes'' (JNum 0) = Inr (JNum bytes_transferred)"
    and "dict_get sum_data ''retransmits'' (JNum 0) = Inr (JNum retransmits)"
  shows "\<exists>row thr. process_interval delay_ms interval =
                     Inr (row, thr, retransmits, bytes_transferred) \<and>
           throughput row = thr \<and>
           (seconds > 0 \<longrightarrow> thr = (bytes_transferred * 8) / (seconds * 1000000)) \<and>
           (seconds = 0 \<longrightarrow> thr = 0)"
  using process_interval_numeric [OF assms, of delay_ms] by auto

theorem interval_throughput_witness:
  "\<exists>row thr. process_interval 10
       (JObj [(''sum'', JObj [(''seconds'', JNum 1), (''bytes'', JNum 125000)])]) =
         Inr (row, thr, 0, 125000) \<and> throughput row = thr \<and> thr = 1"
  using interval_throughput
    [of "JObj [(''sum'', JObj [(''seconds'', JNum 1), (''bytes'', JNum 125000)])]"
        "JObj [(''seconds'', JNum 1), (''bytes'', JNum 125000)]" 1 125000 0 10]
  by (simp add: dict_get_def)

text \<open>
  What lines 133 and 134 compute for an interval record with numeric fields: the loss is
  retransmits / (bytes_transferred / 1500) when bytes_transferred > 0; otherwise the
  packet count falls back to 1 and the loss is the retransmit count itself.
\<close>

lemma interval_loss_computed:
  assumes "dict_get interval ''sum'' (JObj []) = Inr sum_data"
    and "dict_get sum_data ''seconds'' (JNum 0) = Inr (JNum seconds)"
    and "dict_get sum_data ''bytes'' (JNum 0) = Inr (JNum bytes_transferred)"
    and "dict_get sum_data ''retransmits'' (JNum 0) = Inr (JNum retransmits)"
  shows "\<exists>row thr. process_interval delay_ms interval =
                     Inr (row, thr, retransmits, bytes_transferred) \<and>
           (bytes_transferred > 0 \<longrightarrow> loss row = retransmits / (bytes_transferred / 1500)) \<and>
           (bytes_transferred \<le> 0 \<longrightarrow> loss row = retransmits)"
  using process_interval_numeric [OF assms, of delay_ms] by auto

text \<open>
  C5. The claim's formula holds when bytes were transferred (lemma
  \<open>interval_loss_computed\<close>). For an interval without bytes the claim says the loss is 0,
  and the guard of line 134 (\<^verbatim>\<open>if packets_sent > 0 else 0\<close>) is written for that case;
  but line 133 sets the packet count to 1, not 0, so the guard never applies: an interval
  with 0 bytes and 3 retransmits gets the loss 3, and a capture made of that interval gets
  the loss rate 3, through the same fallback in line 151.
\<close>

theorem interval_loss_without_bytes:
  "process_interval 10
     (JObj [(''sum'', JObj [(''seconds'', JNum 1), (''bytes'', JNum 0),
                            (''retransmits'', JNum 3)])]) =
     Inr (\<lparr>time = JNum 0, throughput = 0, delay = 20, loss = 3\<rparr>, 0, 3, 0) \<and>
   process_results ''cubic'' ''profile1'' 10
     (JObj [(''intervals'',
             JArr [JObj [(''sum'', JObj [(''seconds'', JNum 1), (''bytes'', JNum 0),
                                         (''retransmits'', JNum 3)])]])]) =
     Inr ([\<lparr>time = JNum 0, throughput = 0, delay = 20, loss = 3\<rparr>],
          \<lparr>cc_algorithm = ''cubic'', profile = ''profile1'', avg_throughput = 0,
           avg_delay = 20, loss_rate = 3\<rparr>)"
  by (simp add: process_results_def process_interval_def dict_get_def py_iter_def num_def)

text \<open>
  C4, as stated, fails: for an input without intervals the summary's \<open>avg_delay\<close> is
  twice the profile's delay (20 for profile1), not 0.
\<close>

theorem empty_input_avg_delay_counterexample:
  "process_results ''cubic'' ''profile1'' 10 (JObj [(''intervals'', JArr [])]) =
     Inr ([], \<lparr>cc_algorithm = ''cubic'', profile = ''profile1'', avg_throughput = 0,
               avg_delay = 20, loss_rate = 0\<rparr>)"
  by (simp add: process_results_def dict_get_def py_iter_def)

text \<open>
  C4, amended. Reducing a raw input with zero intervals is not an error: it yields no
  rows and a summary with \<open>avg_throughput = 0\<close>, \<open>loss_rate = 0\<close> and
  \<open>avg_delay = 2 * delay_ms\<close>.
\<close>

theorem empty_input_summary:
  assumes "dict_get iperf_data ''intervals'' (JArr []) = Inr intervals"
    and "py_iter intervals = Inr []"
  shows "process_results cc prof delay_ms iperf_data =
           Inr ([], \<lparr>cc_algorithm = cc, profile = prof, avg_throughput = 0,
                     avg_delay = delay_ms * 2, loss_rate = 0\<rparr>)"
  using assms by (simp add: process_results_def)

theorem empty_input_summary_witness:
  "process_results ''cubic'' ''profile2'' 200 (JObj []) =
     Inr ([], \<lparr>cc_algorithm = ''cubic'', profile = ''profile2'', avg_throughput = 0,
               avg_delay = 400, loss_rate = 0\<rparr>)"
  using empty_input_summary [of "JObj []" "JArr []" "''cubic''" "''profile2''" 200]
  by (simp add: dict_get_def py_iter_def)

lemma process_interval_delay:
  assumes "process_interval delay_ms interval = Inr (row, t, r, b)"
  shows "delay row = delay_ms * 2"
proof -
  from assms obtain sum_data sv bv rv where
    "(case (num sv, num bv, num rv) of
        (Some seconds, Some bytes_transferred, Some retransmits) \<Rightarrow>
          (let thr = (if seconds > 0
                      then (bytes_transferred * 8) / (seconds * 1000000) else 0);
               packets_sent = (if bytes_transferred > 0 then bytes_transferred / 1500 else 1);
               loss_rate = (if packets_sent > 0 then retransmits / packets_sent else 0)
           in bind_err (dict_get sum_data ''start'' (JNum 0)) (\<lambda>start.
                Inr (\<lparr>time = start, throughput = thr, delay = delay_ms * 2,
                      loss = loss_rate\<rparr>,
                     thr, retransmits, bytes_transferred)))
      | _ \<Rightarrow> Inl TypeError) = Inr (row, t, r, b)"
    unfolding process_interval_def bind_err_Inr by blast
  then show ?thesis
    by (cases "num sv"; cases "num bv"; cases "num rv")
       (auto simp: Let_def bind_err_Inr)
qed

lemma process_intervals_rows:
  "process_intervals delay_ms items (rows0, t0, r0, b0) = Inr (rows, t, r, b) \<Longrightarrow>
     \<exists>new. rows = rows0 @ new \<and> length new = length items \<and>
           (\<forall>row \<in> set new. delay row = delay_ms * 2)"
proof (induction items arbitrary: rows0 t0 r0 b0)
  case Nil
  then show ?case by simp
next
  case (Cons interval rest)
  from Cons.prems obtain row thr re bt where
    pi: "process_interval delay_ms interval = Inr (row, thr, re, bt)" and
    rec: "process_intervals delay_ms rest (rows0 @ [row], t0 + thr, r0 + re, b0 + bt) =
            Inr (rows, t, r, b)"
    by (auto split: sum.splits)
  from Cons.IH [OF rec] obtain new where
    new: "rows = (rows0 @ [row]) @ new" "length new = length rest"
         "\<forall>row \<in> set new. delay row = delay_ms * 2"
    by blast
  have "delay row = delay_ms * 2"
    using pi by (rule process_interval_delay)
  with new show ?case
    by (intro exI [of _ "row # new"]) simp
qed

lemma process_results_rows:
  assumes "process_results cc prof delay_ms iperf_data = Inr (rows, res)"
  shows "\<exists>intervals items.
           dict_get iperf_data ''intervals'' (JArr []) = Inr intervals \<and>
           py_iter intervals = Inr items \<and> length rows = length items \<and>
           map delay rows = replicate (length items) (delay_ms * 2) \<and>
           avg_delay res = delay_ms * 2"
proof -
  from assms obtain intervals items t r b where
    g: "dict_get iperf_data ''intervals'' (JArr []) = Inr intervals" and
    it: "py_iter intervals = Inr items" and
    loop: "process_intervals delay_ms items ([], 0, 0, 0) = Inr (rows, t, r, b)" and
    res: "avg_delay res = delay_ms * 2"
    by (auto simp: process_results_def bind_err_Inr Let_def)
  from process_intervals_rows [OF loop] have
    "length rows = length items" "\<forall>row \<in> set rows. delay row = delay_ms * 2"
    by auto
  then have "map delay rows = replicate (length items) (delay_ms * 2)"
    using map_const_replicate [of rows delay "delay_ms * 2"] by simp
  with g it res \<open>length rows = length items\<close> show ?thesis by blast
qed

text \<open>
  Whenever the reducer produces a result for a raw input, there is one row per interval,
  every row's delay and the summary's \<open>avg_delay\<close> are exactly twice the delay it was
  given, and two raw inputs reduced under the same delay with the same number of rows
  have the same delay column and the same \<open>avg_delay\<close>, whatever the records contain.
\<close>

lemma process_results_delay:
  assumes "process_results cc prof delay_ms raw = Inr (rows, res)"
    and "process_results cc' prof' delay_ms raw' = Inr (rows', res')"
    and "length rows = length rows'"
  shows "(\<forall>row \<in> set rows. delay row = 2 * delay_ms) \<and> avg_delay res = 2 * delay_ms \<and>
         map delay rows = map delay rows' \<and> avg_delay res = avg_delay res' \<and>
         (\<exists>intervals items. dict_get raw ''intervals'' (JArr []) = Inr intervals \<and>
            py_iter intervals = Inr items \<and> length rows = length items)"
proof -
  from process_results_rows [OF assms(1)] process_results_rows [OF assms(2)] assms(3)
  have eqs: "map delay rows = replicate (length rows) (delay_ms * 2)"
       "map delay rows' = replicate (length rows) (delay_ms * 2)"
       "avg_delay res = delay_ms * 2" "avg_delay res' = delay_ms * 2"
    by auto
  have all: "\<forall>row \<in> set rows. delay row = 2 * delay_ms"
  proof
    fix row assume "row \<in> set rows"
    then have "delay row \<in> set (map delay rows)" by simp
    then show "delay row = 2 * delay_ms"
      using eqs(1) by auto
  qed
  from process_results_rows [OF assms(1)] have
    "\<exists>intervals items. dict_get raw ''intervals'' (JArr []) = Inr intervals \<and>
       py_iter intervals = Inr items \<and> length rows = length items"
    by blast
  with eqs all show ?thesis by simp
qed

section \<open>Teardown in the trial runner\<close>

lemma teardowns_append [simp]: "teardowns (h @ h') = teardowns h + teardowns h'"
  by (simp add: teardowns_def)

lemma teardowns_simps [simp]:
  "teardowns [] = 0"
  "teardowns (Teardown i # h) = Suc (teardowns h)"
  "teardowns (Ran c lf p # h) = teardowns h"
  "teardowns (Makedirs path ok # h) = teardowns h"
  "teardowns (Chdir path ok # h) = teardowns h"
  "teardowns (IpRoute out # h) = teardowns h"
  "teardowns (Loaded path v # h) = teardowns h"
  "teardowns (Wrote path ct ok # h) = teardowns h"
  "teardowns (Starmap n xs # h) = teardowns h"
  by (simp_all add: teardowns_def)

lemma new_events_append [simp]: "new_events h (h @ evs) = evs"
  by (simp add: new_events_def)

text \<open>
  A step of a computation: where it ends and what it added. \<open>adds m k\<close> says that \<open>m\<close>
  only extends the history and calls \<^verbatim>\<open>cleanup_tc\<close> exactly \<open>k\<close> times, however it ends.
\<close>

lemma bind_io_cases:
  assumes "bind_io m f h = (r, h')"
  obtains (ret) x h1 where "m h = (Ret x, h1)" "f x h1 = (r, h')"
        | (raise) e where "m h = (Raise e, h')" "r = Raise e"
        | (hang) "m h = (Hang, h')" "r = Hang"
proof (cases "m h")
  case (Pair r1 h1)
  with assms show ?thesis
    by (cases r1) (auto simp: bind_io_def intro: ret raise hang)
qed

lemma addsD: "adds m k \<Longrightarrow> m h = (r, h') \<Longrightarrow> \<exists>evs. h' = h @ evs \<and> teardowns evs = k"
  unfolding adds_def by blast

lemma adds_return: "adds (return_io x) 0"
  by (simp add: adds_def return_io_def)

lemma adds_raise: "adds (raise_io e) 0"
  by (simp add: adds_def raise_io_def)

lemma adds_run_command: "adds (run_command E c lf) 0"
  by (auto simp: adds_def run_command_def split: proc.splits)

lemma adds_os_makedirs: "adds (os_makedirs E path) 0"
  by (auto simp: adds_def os_makedirs_def split: if_splits)

lemma adds_json_load: "adds (json_load E path) 0"
  by (auto simp: adds_def json_load_def split: sum.splits)

lemma adds_write_file: "adds (write_file E path c) 0"
  by (auto simp: adds_def write_file_def split: if_splits)

lemma adds_bind_keep:
  assumes "adds m 0" and "\<And>x. adds (f x) 0"
  shows "adds (bind_io m f) 0"
  unfolding adds_def
proof (intro allI impI)
  fix h r h'
  assume run: "bind_io m f h = (r, h')"
  then show "\<exists>evs. h' = h @ evs \<and> teardowns evs = 0"
  proof (cases rule: bind_io_cases)
    case (ret x h1)
    from addsD [OF assms(1) ret(1)] obtain e1 where "h1 = h @ e1" "teardowns e1 = 0"
      by blast
    moreover from addsD [OF assms(2) ret(2)] obtain e2 where "h' = h1 @ e2" "teardowns e2 = 0"
      by blast
    ultimately show ?thesis by simp
  next
    case (raise e)
    from addsD [OF assms(1) raise(1)] show ?thesis .
  next
    case hang
    from addsD [OF assms(1) hang(1)] show ?thesis .
  qed
qed

lemma adds_setup_tc: "adds (setup_tc E interface bandwidth_mbps delay_ms queue_size_bytes) 0"
  unfolding setup_tc_def
  by (intro adds_bind_keep adds_run_command adds_return)

lemma adds_run_experiment_try:
  "adds (run_experiment_try E cc prof runtime interface delay_ms bandwidth_mbps
           queue_size_bytes data_dir) 0"
proof -
  have reduce: "adds (case process_results cc prof delay_ms iperf_data of
          Inl e \<Rightarrow> raise_io e
        | Inr (throughput_data, result) \<Rightarrow>
            bind_io (write_file E rf (ResultJson result)) (\<lambda>_.
            bind_io (write_file E tf (ThroughputCsv throughput_data)) (\<lambda>_.
            return_io 0))) 0" for iperf_data rf tf
    by (cases "process_results cc prof delay_ms iperf_data")
       (auto intro!: adds_bind_keep adds_write_file adds_return adds_raise)
  show ?thesis
    unfolding run_experiment_try_def Let_def
    by (intro adds_bind_keep adds_setup_tc adds_run_command adds_json_load reduce)
qed

lemma adds_finally:
  "adds (bind_io (cleanup_tc E interface) (\<lambda>_.
         bind_io (run_command E KillallIperf3 None) (\<lambda>_. return_io ()))) 1"
  unfolding adds_def
proof (intro allI impI)
  fix h r h'
  assume run: "bind_io (cleanup_tc E interface) (\<lambda>_.
         bind_io (run_command E KillallIperf3 None) (\<lambda>_. return_io ())) h = (r, h')"
  have clean: "\<exists>evs. h1 = h @ evs \<and> teardowns evs = 1"
    if "cleanup_tc E interface h = (r1, h1)" for r1 h1
  proof -
    have "adds (bind_io (run_command E (TcQdiscDel interface) None) (\<lambda>_. return_io ())) 0"
      by (intro adds_bind_keep adds_run_command adds_return)
    from addsD [OF this that [unfolded cleanup_tc_def]]
    obtain evs where "h1 = (h @ [Teardown interface]) @ evs" "teardowns evs = 0"
      by blast
    then show ?thesis by simp
  qed
  have rest: "adds (bind_io (run_command E KillallIperf3 None) (\<lambda>_. return_io ())) 0"
    by (intro adds_bind_keep adds_run_command adds_return)
  from run show "\<exists>evs. h' = h @ evs \<and> teardowns evs = 1"
  proof (cases rule: bind_io_cases)
    case (ret x h1)
    from clean [OF ret(1)] obtain e1 where "h1 = h @ e1" "teardowns e1 = 1" by blast
    moreover from addsD [OF rest ret(2)] obtain e2 where "h' = h1 @ e2" "teardowns e2 = 0"
      by blast
    ultimately show ?thesis by simp
  next
    case (raise e)
    then show ?thesis using clean by blast
  next
    case hang
    then show ?thesis using clean by blast
  qed
qed

lemma try_except_finally_adds:
  assumes body: "adds body 0" and final: "adds final k"
    and run: "try_except_finally body on_exception final h = (r, h')"
    and "r \<noteq> Hang"
  shows "\<exists>evs. h' = h @ evs \<and> teardowns evs = k"
proof -
  obtain r1 h1 where b: "body h = (r1, h1)" by (cases "body h")
  from addsD [OF body b] obtain e1 where e1: "h1 = h @ e1" "teardowns e1 = 0"
    by blast
  obtain r2 h2 where f: "final h1 = (r2, h2)" by (cases "final h1")
  from addsD [OF final f] obtain e2 where e2: "h2 = h1 @ e2" "teardowns e2 = k"
    by blast
  have "r1 \<noteq> Hang"
    using run b \<open>r \<noteq> Hang\<close> by (auto simp: try_except_finally_def)
  then have "h' = h2"
    using run b f by (cases r1; cases r2) (auto simp: try_except_finally_def)
  with e1 e2 show ?thesis by simp
qed

lemma try_except_finally_result:
  assumes "try_except_finally body on_exception final h = (Ret v, h')"
  shows "(\<exists>h1. body h = (Ret v, h1)) \<or> v = on_exception"
proof -
  obtain r1 h1 where b: "body h = (r1, h1)" by (cases "body h")
  obtain r2 h2 where f: "final h1 = (r2, h2)" by (cases "final h1")
  from assms b f show ?thesis
    by (cases r1; cases r2) (auto simp: try_except_finally_def)
qed

lemma trial_prelude:
  assumes run:
    "bind_io (os_makedirs E data_dir) (\<lambda>_.
     bind_io (os_makedirs E log_dir) (\<lambda>_.
       (case tc_profile prof of
          None \<Rightarrow> return_io 1
        | Some (delay_ms, bandwidth_mbps, queue_size_bytes) \<Rightarrow>
            bind_io (default_interface E) (\<lambda>interface.
              if interface = [] then return_io 1
              else
                bind_io (run_command E (SysctlCC cc) None) (\<lambda>_.
                  guarded interface delay_ms bandwidth_mbps queue_size_bytes))))) h = (r, h')"
    and "r \<noteq> Hang"
    and guarded: "\<And>i d b q h0 r0 h1. guarded i d b q h0 = (r0, h1) \<Longrightarrow> r0 \<noteq> Hang \<Longrightarrow>
                    \<exists>evs. h1 = h0 @ evs \<and> teardowns evs = 1"
  shows "teardowns (new_events h h') =
           (if \<exists>rc. Ran (SysctlCC cc) None (Exit rc) \<in> set (new_events h h') then 1 else 0)"
proof -
  from run show ?thesis
  proof (cases rule: bind_io_cases)
    case (ret u1 h1)
    then have h1: "h1 = h @ [Makedirs data_dir True]"
      by (auto simp: os_makedirs_def split: if_splits)
    from ret(2) show ?thesis
    proof (cases rule: bind_io_cases)
      case (ret u2 h2)
      then have h2: "h2 = h1 @ [Makedirs log_dir True]"
        by (auto simp: os_makedirs_def split: if_splits)
      show ?thesis
      proof (cases "tc_profile prof")
        case None
        with ret(2) h1 h2 show ?thesis by (auto simp: return_io_def)
      next
        case (Some params)
        obtain d b q where params: "params = (d, b, q)" by (cases params)
        with Some ret(2) have
          "bind_io (default_interface E) (\<lambda>interface.
              if interface = [] then return_io 1
              else bind_io (run_command E (SysctlCC cc) None) (\<lambda>_. guarded interface d b q))
             h2 = (r, h')"
          by simp
        then show ?thesis
        proof (cases rule: bind_io_cases)
          case (ret interface h3)
          then have h3: "h3 = h2 @ [IpRoute (Inr interface)]"
            by (auto simp: default_interface_def split: sum.splits)
          show ?thesis
          proof (cases "interface = []")
            case True
            with ret(2) h1 h2 h3 show ?thesis by (auto simp: return_io_def)
          next
            case False
            with ret(2) have
              "bind_io (run_command E (SysctlCC cc) None) (\<lambda>_. guarded interface d b q) h3 =
                 (r, h')"
              by simp
            then show ?thesis
            proof (cases rule: bind_io_cases)
              case (ret rc h4)
              then have h4: "h4 = h3 @ [Ran (SysctlCC cc) None (Exit rc)]"
                by (auto simp: run_command_def split: proc.splits)
              from guarded [OF ret(2) \<open>r \<noteq> Hang\<close>] obtain evs where
                "h' = h4 @ evs" "teardowns evs = 1"
                by blast
              with h1 h2 h3 h4 show ?thesis by auto
            next
              case (raise e)
              then show ?thesis
                using h1 h2 h3 by (auto simp: run_command_def split: proc.splits)
            next
              case hang
              with \<open>r \<noteq> Hang\<close> show ?thesis by simp
            qed
          qed
        next
          case (raise e)
          then show ?thesis
            using h1 h2 by (auto simp: default_interface_def split: sum.splits)
        next
          case hang
          with \<open>r \<noteq> Hang\<close> show ?thesis by simp
        qed
      qed
    next
      case (raise e)
      then show ?thesis
        using h1 by (auto simp: os_makedirs_def split: if_splits)
    next
      case hang
      with \<open>r \<noteq> Hang\<close> show ?thesis by simp
    qed
  next
    case (raise e)
    then show ?thesis
      by (auto simp: os_makedirs_def split: if_splits)
  next
    case hang
    with \<open>r \<noteq> Hang\<close> show ?thesis by simp
  qed
qed

text \<open>
  C1, as stated, fails: a trial with an unknown profile returns 1 before the \<^verbatim>\<open>try\<close>
  statement and \<^verbatim>\<open>cleanup_tc\<close> is not called at all.
\<close>

theorem teardown_unknown_profile_counterexample:
  "run_experiment quiet_host ''cubic'' ''profile3'' 60 [] =
     (Ret 1, [Makedirs ''/root/networks_assignment/data/profile3_cubic'' True,
              Makedirs ''/root/networks_assignment/logs'' True]) \<and>
   teardowns [Makedirs ''/root/networks_assignment/data/profile3_cubic'' True,
              Makedirs ''/root/networks_assignment/logs'' True] = 0"
  by (simp add: run_experiment_def quiet_host_def tc_profile_def bind_io_def
        os_makedirs_def return_io_def)

text \<open>
  C1, amended. A trial that returns or raises calls \<^verbatim>\<open>cleanup_tc\<close> exactly once if it
  reached the \<^verbatim>\<open>try\<close> statement, that is, if it set the congestion control algorithm (the
  last step before \<^verbatim>\<open>try\<close>), whatever happens in configure, capture, reduction or
  persistence; a trial that ends before that point never calls it.
\<close>

theorem teardown_once_per_trial:
  assumes run: "run_experiment E cc prof runtime h = (r, h')" and "r \<noteq> Hang"
  shows "teardowns (new_events h h') =
           (if \<exists>rc. Ran (SysctlCC cc) None (Exit rc) \<in> set (new_events h h') then 1 else 0)"
proof (rule trial_prelude [OF run [unfolded run_experiment_def Let_def] \<open>r \<noteq> Hang\<close>])
  fix i d b q h0 r0 h1
  assume "try_except_finally
            (run_experiment_try E cc prof runtime i d b q
               ((home E @ ''/networks_assignment'') @ ''/data/'' @ prof @ ''_'' @ cc))
            1
            (bind_io (cleanup_tc E i) (\<lambda>_.
             bind_io (run_command E KillallIperf3 None) (\<lambda>_. return_io ())))
            h0 = (r0, h1)"
    and "r0 \<noteq> Hang"
  then show "\<exists>evs. h1 = h0 @ evs \<and> teardowns evs = 1"
    by (rule try_except_finally_adds [OF adds_run_experiment_try adds_finally])
qed

lemmas run_defs =
  run_experiment_def run_experiment_try_def setup_tc_def cleanup_tc_def bind_io_def
  return_io_def raise_io_def run_command_def os_makedirs_def os_chdir_def
  default_interface_def json_load_def write_file_def try_except_finally_def
  tc_profile_def py_int_def process_results_def process_interval_def dict_get_def
  py_iter_def num_def Let_def

theorem teardown_once_per_trial_witness:
  "fst (run_experiment quiet_host ''cubic'' ''profile1'' 60 []) = Ret 0 \<and>
   teardowns (snd (run_experiment quiet_host ''cubic'' ''profile1'' 60 [])) = 1 \<and>
   fst (run_experiment failed_capture_host ''cubic'' ''profile1'' 60 []) = Ret 1 \<and>
   teardowns (snd (run_experiment failed_capture_host ''cubic'' ''profile1'' 60 [])) = 1"
proof -
  obtain r h where ok: "run_experiment quiet_host ''cubic'' ''profile1'' 60 [] = (r, h)"
    by (cases "run_experiment quiet_host ''cubic'' ''profile1'' 60 []")
  obtain r' h' where
    bad: "run_experiment failed_capture_host ''cubic'' ''profile1'' 60 [] = (r', h')"
    by (cases "run_experiment failed_capture_host ''cubic'' ''profile1'' 60 []")
  have r: "r = Ret 0" and sysctl: "Ran (SysctlCC ''cubic'') None (Exit 0) \<in> set h"
    using ok by (auto simp: run_defs quiet_host_def)
  have r': "r' = Ret 1" and sysctl': "Ran (SysctlCC ''cubic'') None (Exit 0) \<in> set h'"
    using bad by (auto simp: run_defs quiet_host_def failed_capture_host_def)
  from teardown_once_per_trial [OF ok] r sysctl have "teardowns h = 1"
    by (auto simp: new_events_def)
  moreover from teardown_once_per_trial [OF bad] r' sysctl' have "teardowns h' = 1"
    by (auto simp: new_events_def)
  ultimately show ?thesis
    using ok bad r r' by simp
qed

text \<open>
  There is no timeout in the trial: when the traffic generator never exits, the trial
  never returns and \<^verbatim>\<open>cleanup_tc\<close> is never reached.
\<close>

lemma stalled_capture_no_teardown:
  "fst (run_experiment stalled_capture_host ''cubic'' ''profile1'' 60 []) = Hang \<and>
   teardowns (snd (run_experiment stalled_capture_host ''cubic'' ''profile1'' 60 [])) = 0"
  by (simp add: run_defs quiet_host_def stalled_capture_host_def)

text \<open>
  A capture without intervals is not a failure of the trial either: the trial returns 0
  and writes the summary with the constant delay and zero throughput and loss.
\<close>

lemma empty_capture_trial_succeeds:
  "fst (run_experiment empty_capture_host ''cubic'' ''profile1'' 60 []) = Ret 0 \<and>
   Wrote ''/root/networks_assignment/data/profile1_cubic/result.json''
     (ResultJson \<lparr>cc_algorithm = ''cubic'', profile = ''profile1'', avg_throughput = 0,
                  avg_delay = 20, loss_rate = 0\<rparr>) True
     \<in> set (snd (run_experiment empty_capture_host ''cubic'' ''profile1'' 60 [])) \<and>
   Wrote ''/root/networks_assignment/data/profile1_cubic/cubic_throughput.csv''
     (ThroughputCsv []) True
     \<in> set (snd (run_experiment empty_capture_host ''cubic'' ''profile1'' 60 []))"
  by (simp add: run_defs quiet_host_def empty_capture_host_def)

section \<open>The delay written by a trial\<close>

lemma yieldsD: "yields G m \<Longrightarrow> m h = (r, h') \<Longrightarrow> \<exists>evs. h' = h @ evs \<and> G evs"
  unfolding yields_def by blast

lemma each_return: "each P (return_io x)"
  by (simp add: yields_def return_io_def)

lemma each_raise: "each P (raise_io e)"
  by (simp add: yields_def raise_io_def)

lemma each_run_command: "(\<And>p. P (Ran c lf p)) \<Longrightarrow> each P (run_command E c lf)"
  by (auto simp: yields_def run_command_def split: proc.splits)

lemma each_os_makedirs: "(\<And>ok. P (Makedirs path ok)) \<Longrightarrow> each P (os_makedirs E path)"
  by (auto simp: yields_def os_makedirs_def split: if_splits)

lemma each_default_interface: "(\<And>out. P (IpRoute out)) \<Longrightarrow> each P (default_interface E)"
  by (auto simp: yields_def default_interface_def split: sum.splits)

lemma each_write_file: "(\<And>ok. P (Wrote path c ok)) \<Longrightarrow> each P (write_file E path c)"
  by (auto simp: yields_def write_file_def split: if_splits)

lemma each_bind:
  assumes "each P m" and "\<And>x. each P (f x)"
  shows "each P (bind_io m f)"
  unfolding yields_def
proof (intro allI impI)
  fix h r h'
  assume "bind_io m f h = (r, h')"
  then show "\<exists>evs. h' = h @ evs \<and> (\<forall>ev \<in> set evs. P ev)"
  proof (cases rule: bind_io_cases)
    case (ret x h1)
    from yieldsD [OF assms(1) ret(1)] obtain e1 where "h1 = h @ e1" "\<forall>ev \<in> set e1. P ev"
      by blast
    moreover from yieldsD [OF assms(2) ret(2)] obtain e2 where
      "h' = h1 @ e2" "\<forall>ev \<in> set e2. P ev"
      by blast
    ultimately show ?thesis
      by (intro exI [of _ "e1 @ e2"]) auto
  next
    case (raise e)
    from yieldsD [OF assms(1) raise(1)] show ?thesis .
  next
    case hang
    from yieldsD [OF assms(1) hang(1)] show ?thesis .
  qed
qed

lemma quiet_run_command: "each no_write (run_command E c lf)"
  by (rule each_run_command) (simp add: no_write_def)

lemma quiet_os_makedirs: "each no_write (os_makedirs E path)"
  by (rule each_os_makedirs) (simp add: no_write_def)

lemma quiet_default_interface: "each no_write (default_interface E)"
  by (rule each_default_interface) (simp add: no_write_def)

lemma quiet_setup_tc:
  "each no_write (setup_tc E interface bandwidth_mbps delay_ms queue_size_bytes)"
  unfolding setup_tc_def
  by (intro each_bind each_run_command each_return) (simp_all add: no_write_def)

lemma quiet_finally:
  "each no_write (bind_io (cleanup_tc E interface) (\<lambda>_.
                  bind_io (run_command E KillallIperf3 None) (\<lambda>_. return_io ())))"
proof -
  have "each no_write (cleanup_tc E interface)"
    unfolding yields_def
  proof (intro allI impI)
    fix h r h'
    assume "cleanup_tc E interface h = (r, h')"
    then have run: "bind_io (run_command E (TcQdiscDel interface) None) (\<lambda>_. return_io ())
                      (h @ [Teardown interface]) = (r, h')"
      by (simp add: cleanup_tc_def)
    have "each no_write (bind_io (run_command E (TcQdiscDel interface) None)
                           (\<lambda>_. return_io ()))"
      by (intro each_bind each_run_command each_return) (simp add: no_write_def)
    from yieldsD [OF this run] obtain evs where
      "h' = (h @ [Teardown interface]) @ evs" "\<forall>ev \<in> set evs. no_write ev"
      by blast
    then show "\<exists>evs. h' = h @ evs \<and> (\<forall>ev \<in> set evs. no_write ev)"
      by (intro exI [of _ "Teardown interface # evs"]) (simp add: no_write_def)
  qed
  then show ?thesis
    by (intro each_bind each_run_command each_return) (simp_all add: no_write_def)
qed

text \<open>
  A computation keeps a property \<open>G\<close> of the added events when it is preceded or followed
  by steps that write nothing, if \<open>G\<close> itself does not mind such steps.
\<close>

lemma yields_after_quiet:
  assumes first: "each no_write m" and rest: "\<And>x. yields G (f x)"
    and vacuous: "\<And>evs. \<forall>ev \<in> set evs. no_write ev \<Longrightarrow> G evs"
    and prefix: "\<And>pre evs. \<forall>ev \<in> set pre. no_write ev \<Longrightarrow> G evs \<Longrightarrow> G (pre @ evs)"
  shows "yields G (bind_io m f)"
  unfolding yields_def
proof (intro allI impI)
  fix h r h'
  assume "bind_io m f h = (r, h')"
  then show "\<exists>evs. h' = h @ evs \<and> G evs"
  proof (cases rule: bind_io_cases)
    case (ret x h1)
    from yieldsD [OF first ret(1)] obtain e1 where
      e1: "h1 = h @ e1" "\<forall>ev \<in> set e1. no_write ev"
      by blast
    from yieldsD [OF rest ret(2)] obtain e2 where e2: "h' = h1 @ e2" "G e2"
      by blast
    from prefix [OF e1(2) e2(2)] e1(1) e2(1) show ?thesis
      by (intro exI [of _ "e1 @ e2"]) simp
  next
    case (raise e)
    from yieldsD [OF first raise(1)] vacuous show ?thesis by blast
  next
    case hang
    from yieldsD [OF first hang(1)] vacuous show ?thesis by blast
  qed
qed

lemma yields_try_except_finally:
  assumes body: "yields G body" and final: "each no_write final"
    and suffix: "\<And>evs post. G evs \<Longrightarrow> \<forall>ev \<in> set post. no_write ev \<Longrightarrow> G (evs @ post)"
  shows "yields G (try_except_finally body on_exception final)"
  unfolding yields_def
proof (intro allI impI)
  fix h r h'
  assume run: "try_except_finally body on_exception final h = (r, h')"
  obtain r1 h1 where b: "body h = (r1, h1)" by (cases "body h")
  from yieldsD [OF body b] obtain e1 where e1: "h1 = h @ e1" "G e1"
    by blast
  obtain r2 h2 where f: "final h1 = (r2, h2)" by (cases "final h1")
  from yieldsD [OF final f] obtain e2 where e2: "h2 = h1 @ e2" "\<forall>ev \<in> set e2. no_write ev"
    by blast
  show "\<exists>evs. h' = h @ evs \<and> G evs"
  proof (cases "r1 = Hang")
    case True
    with run b have "h' = h1"
      by (simp add: try_except_finally_def)
    with e1 show ?thesis by blast
  next
    case False
    then have "h' = h2"
      using run b f by (cases r1; cases r2) (auto simp: try_except_finally_def)
    with e1 e2 suffix [OF e1(2) e2(2)] show ?thesis
      by (intro exI [of _ "e1 @ e2"]) simp
  qed
qed

lemma reduced_writes_vacuous:
  "\<forall>ev \<in> set evs. no_write ev \<Longrightarrow> reduced_writes cc prof delay_ms evs"
  by (auto simp: reduced_writes_def no_write_def)

lemma reduced_writes_prefix:
  assumes "\<forall>ev \<in> set pre. no_write ev" and "reduced_writes cc prof delay_ms evs"
  shows "reduced_writes cc prof delay_ms (pre @ evs)"
  unfolding reduced_writes_def
proof (intro allI impI)
  fix path c ok
  assume "Wrote path c ok \<in> set (pre @ evs)"
  with assms(1) have "Wrote path c ok \<in> set evs"
    by (auto simp: no_write_def)
  with assms(2) obtain src raw rows res where
    "Loaded src (Inr raw) \<in> set evs" "process_results cc prof delay_ms raw = Inr (rows, res)"
    "c = ResultJson res \<or> c = ThroughputCsv rows"
    unfolding reduced_writes_def by blast
  then show "\<exists>src raw rows res. Loaded src (Inr raw) \<in> set (pre @ evs) \<and>
               process_results cc prof delay_ms raw = Inr (rows, res) \<and>
               (c = ResultJson res \<or> c = ThroughputCsv rows)"
    by (intro exI [of _ src] exI [of _ raw] exI [of _ rows] exI [of _ res]) simp
qed

lemma reduced_writes_suffix:
  assumes "reduced_writes cc prof delay_ms evs" and "\<forall>ev \<in> set post. no_write ev"
  shows "reduced_writes cc prof delay_ms (evs @ post)"
  unfolding reduced_writes_def
proof (intro allI impI)
  fix path c ok
  assume "Wrote path c ok \<in> set (evs @ post)"
  with assms(2) have "Wrote path c ok \<in> set evs"
    by (auto simp: no_write_def)
  with assms(1) obtain src raw rows res where
    "Loaded src (Inr raw) \<in> set evs" "process_results cc prof delay_ms raw = Inr (rows, res)"
    "c = ResultJson res \<or> c = ThroughputCsv rows"
    unfolding reduced_writes_def by blast
  then show "\<exists>src raw rows res. Loaded src (Inr raw) \<in> set (evs @ post) \<and>
               process_results cc prof delay_ms raw = Inr (rows, res) \<and>
               (c = ResultJson res \<or> c = ThroughputCsv rows)"
    by (intro exI [of _ src] exI [of _ raw] exI [of _ rows] exI [of _ res]) simp
qed

lemma reduced_after_quiet:
  assumes "each no_write m" and "\<And>x. yields (reduced_writes cc prof delay_ms) (f x)"
  shows "yields (reduced_writes cc prof delay_ms) (bind_io m f)"
  using assms
proof (rule yields_after_quiet)
  show "reduced_writes cc prof delay_ms evs" if "\<forall>ev \<in> set evs. no_write ev" for evs
    using that by (rule reduced_writes_vacuous)
  show "reduced_writes cc prof delay_ms (pre @ evs)"
    if "\<forall>ev \<in> set pre. no_write ev" "reduced_writes cc prof delay_ms evs" for pre evs
    using that by (rule reduced_writes_prefix)
qed

text \<open>From loading the capture on: what is written is what the reducer made of it.\<close>

lemma load_reduce_write:
  "yields (reduced_writes cc prof delay_ms)
     (bind_io (json_load E capture) (\<lambda>iperf_data.
        (case process_results cc prof delay_ms iperf_data of
           Inl e \<Rightarrow> raise_io e
         | Inr (throughput_data, result) \<Rightarrow>
             bind_io (write_file E results_file (ResultJson result)) (\<lambda>_.
             bind_io (write_file E throughput_file (ThroughputCsv throughput_data)) (\<lambda>_.
             return_io 0)))))"
  unfolding yields_def
proof (intro allI impI)
  fix h r h'
  assume "bind_io (json_load E capture) (\<lambda>iperf_data.
        (case process_results cc prof delay_ms iperf_data of
           Inl e \<Rightarrow> raise_io e
         | Inr (throughput_data, result) \<Rightarrow>
             bind_io (write_file E results_file (ResultJson result)) (\<lambda>_.
             bind_io (write_file E throughput_file (ThroughputCsv throughput_data)) (\<lambda>_.
             return_io 0)))) h = (r, h')"
  then show "\<exists>evs. h' = h @ evs \<and> reduced_writes cc prof delay_ms evs"
  proof (cases rule: bind_io_cases)
    case (ret raw h1)
    then have h1: "h1 = h @ [Loaded capture (Inr raw)]"
      by (auto simp: json_load_def split: sum.splits)
    show ?thesis
    proof (cases "process_results cc prof delay_ms raw")
      case (Inl e)
      with ret(2) h1 have "h' = h @ [Loaded capture (Inr raw)]"
        by (simp add: raise_io_def)
      then show ?thesis
        by (auto simp: reduced_writes_def)
    next
      case (Inr reduced)
      obtain rows res where reduced: "reduced = (rows, res)" by (cases reduced)
      have "each (\<lambda>ev. \<exists>path ok. ev = Wrote path (ResultJson res) ok \<or>
                                   ev = Wrote path (ThroughputCsv rows) ok)
              (bind_io (write_file E results_file (ResultJson res)) (\<lambda>_.
               bind_io (write_file E throughput_file (ThroughputCsv rows)) (\<lambda>_.
               return_io 0)))"
        by (intro each_bind each_write_file each_return) blast+
      moreover from ret(2) Inr reduced have
        "bind_io (write_file E results_file (ResultJson res)) (\<lambda>_.
         bind_io (write_file E throughput_file (ThroughputCsv rows)) (\<lambda>_.
         return_io 0)) h1 = (r, h')"
        by simp
      ultimately obtain evs where
        evs: "h' = h1 @ evs"
             "\<forall>ev \<in> set evs. \<exists>path ok. ev = Wrote path (ResultJson res) ok \<or>
                                        ev = Wrote path (ThroughputCsv rows) ok"
        using yieldsD by blast
      have "reduced_writes cc prof delay_ms (Loaded capture (Inr raw) # evs)"
        unfolding reduced_writes_def
      proof (intro allI impI)
        fix path c ok
        assume "Wrote path c ok \<in> set (Loaded capture (Inr raw) # evs)"
        then have "Wrote path c ok \<in> set evs" by simp
        with evs(2) have "c = ResultJson res \<or> c = ThroughputCsv rows"
          by auto
        with Inr reduced show "\<exists>src' raw' rows' res'.
            Loaded src' (Inr raw') \<in> set (Loaded capture (Inr raw) # evs) \<and>
            process_results cc prof delay_ms raw' = Inr (rows', res') \<and>
            (c = ResultJson res' \<or> c = ThroughputCsv rows')"
          by (intro exI [of _ capture] exI [of _ raw] exI [of _ rows] exI [of _ res]) simp
      qed
      with evs(1) h1 show ?thesis
        by (intro exI [of _ "Loaded capture (Inr raw) # evs"]) simp
    qed
  next
    case (raise e)
    then have "h' = h @ [Loaded capture (Inl e)]"
      by (auto simp: json_load_def split: sum.splits)
    then show ?thesis
      by (auto simp: reduced_writes_def)
  next
    case hang
    then show ?thesis
      by (auto simp: json_load_def split: sum.splits)
  qed
qed

lemma run_experiment_try_writes:
  "yields (reduced_writes cc prof delay_ms)
     (run_experiment_try E cc prof runtime interface delay_ms bandwidth_mbps
        queue_size_bytes data_dir)"
  unfolding run_experiment_try_def Let_def
  by (rule reduced_after_quiet [OF quiet_setup_tc],
      rule reduced_after_quiet [OF quiet_run_command],
      rule reduced_after_quiet [OF quiet_run_command],
      rule load_reduce_write)

lemma run_experiment_writes:
  assumes "tc_profile prof = Some (delay_ms, bandwidth_mbps, queue_size_bytes)"
  shows "yields (reduced_writes cc prof delay_ms) (run_experiment E cc prof runtime)"
proof -
  let ?G = "reduced_writes cc prof delay_ms"
  have guarded: "yields ?G
      (bind_io (run_command E (SysctlCC cc) None) (\<lambda>_.
         try_except_finally
           (run_experiment_try E cc prof runtime interface delay_ms bandwidth_mbps
              queue_size_bytes data_dir)
           1
           (bind_io (cleanup_tc E interface) (\<lambda>_.
            bind_io (run_command E KillallIperf3 None) (\<lambda>_. return_io ())))))"
    for interface data_dir
  proof (rule reduced_after_quiet [OF quiet_run_command])
    show "yields ?G
        (try_except_finally
           (run_experiment_try E cc prof runtime interface delay_ms bandwidth_mbps
              queue_size_bytes data_dir)
           1
           (bind_io (cleanup_tc E interface) (\<lambda>_.
            bind_io (run_command E KillallIperf3 None) (\<lambda>_. return_io ()))))"
      by (rule yields_try_except_finally [OF run_experiment_try_writes quiet_finally])
         (rule reduced_writes_suffix)
  qed
  have early: "yields ?G (return_io (1::int))"
    by (simp add: yields_def return_io_def reduced_writes_def)
  have probe: "yields ?G
      (bind_io (default_interface E) (\<lambda>interface.
         if interface = [] then return_io 1
         else
           bind_io (run_command E (SysctlCC cc) None) (\<lambda>_.
             try_except_finally
               (run_experiment_try E cc prof runtime interface delay_ms bandwidth_mbps
                  queue_size_bytes data_dir)
               1
               (bind_io (cleanup_tc E interface) (\<lambda>_.
                bind_io (run_command E KillallIperf3 None) (\<lambda>_. return_io ()))))))"
    for data_dir
  proof (rule reduced_after_quiet [OF quiet_default_interface])
    show "yields ?G
        (if interface = [] then return_io 1
         else
           bind_io (run_command E (SysctlCC cc) None) (\<lambda>_.
             try_except_finally
               (run_experiment_try E cc prof runtime interface delay_ms bandwidth_mbps
                  queue_size_bytes data_dir)
               1
               (bind_io (cleanup_tc E interface) (\<lambda>_.
                bind_io (run_command E KillallIperf3 None) (\<lambda>_. return_io ())))))"
      for interface
      using early guarded by simp
  qed
  show ?thesis
    unfolding run_experiment_def Let_def assms option.case prod.case
    by (rule reduced_after_quiet [OF quiet_os_makedirs],
        rule reduced_after_quiet [OF quiet_os_makedirs],
        rule probe)
qed

text \<open>
  C10. For every trial of a known profile, whose one-way delay is \<open>delay_ms\<close> in the
  profile table: the rows of every throughput src it writes have the delay
  \<open>2 * delay_ms\<close>, one row per interval of the capture it loaded, and every summary it
  writes has \<open>avg_delay = 2 * delay_ms\<close>. Hence two trials of the same profile, on any two
  hosts and captures, that write the same number of rows write the same delay column:
  nothing in the capture, a measured round-trip time included, has an influence.
\<close>

theorem trial_delay_is_twice_profile_delay:
  assumes prof: "tc_profile prof = Some (delay_ms, bandwidth_mbps, queue_size_bytes)"
    and run: "run_experiment E cc prof runtime h = (r, h1)"
    and run': "run_experiment E' cc' prof runtime' h' = (r', h1')"
  shows "(\<forall>path rows ok. Wrote path (ThroughputCsv rows) ok \<in> set (new_events h h1) \<longrightarrow>
            (\<forall>row \<in> set rows. delay row = 2 * delay_ms) \<and>
            (\<exists>src raw intervals items.
               Loaded src (Inr raw) \<in> set (new_events h h1) \<and>
               dict_get raw ''intervals'' (JArr []) = Inr intervals \<and>
               py_iter intervals = Inr items \<and> length rows = length items)) \<and>
         (\<forall>path res ok. Wrote path (ResultJson res) ok \<in> set (new_events h h1) \<longrightarrow>
            avg_delay res = 2 * delay_ms) \<and>
         (\<forall>path rows ok path' rows' ok'.
            Wrote path (ThroughputCsv rows) ok \<in> set (new_events h h1) \<and>
            Wrote path' (ThroughputCsv rows') ok' \<in> set (new_events h' h1') \<and>
            length rows = length rows' \<longrightarrow>
            map delay rows = map delay rows')"
proof -
  have written: "\<exists>src raw rows res.
        Loaded src (Inr raw) \<in> set (new_events h0 h2) \<and>
        process_results sc prof delay_ms raw = Inr (rows, res) \<and>
        (c = ResultJson res \<or> c = ThroughputCsv rows)"
    if "run_experiment H sc prof rt h0 = (r0, h2)" "Wrote path c ok \<in> set (new_events h0 h2)"
    for H sc rt h0 r0 h2 path c ok
  proof -
    from yieldsD [OF run_experiment_writes [OF prof] that(1)] obtain evs where
      evs: "h2 = h0 @ evs" and reduced: "reduced_writes sc prof delay_ms evs"
      by blast
    from evs have "new_events h0 h2 = evs"
      by simp
    with that(2) reduced show ?thesis
      unfolding reduced_writes_def by blast
  qed
  have rows_delay: "map delay rows = replicate (length rows) (2 * delay_ms) \<and>
        (\<exists>src raw intervals items.
           Loaded src (Inr raw) \<in> set (new_events h0 h2) \<and>
           dict_get raw ''intervals'' (JArr []) = Inr intervals \<and>
           py_iter intervals = Inr items \<and> length rows = length items)"
    if "run_experiment H sc prof rt h0 = (r0, h2)"
       "Wrote path (ThroughputCsv rows) ok \<in> set (new_events h0 h2)"
    for H sc rt h0 r0 h2 path rows ok
  proof -
    from written [OF that] obtain src raw res where
      loaded: "Loaded src (Inr raw) \<in> set (new_events h0 h2)" and
      reduced: "process_results sc prof delay_ms raw = Inr (rows, res)"
      by auto
    from process_results_rows [OF reduced] obtain intervals items where
      "dict_get raw ''intervals'' (JArr []) = Inr intervals" "py_iter intervals = Inr items"
      "length rows = length items"
      "map delay rows = replicate (length items) (delay_ms * 2)"
      by blast
    with loaded show ?thesis
      by (auto simp: mult.commute)
  qed
  have summary_delay: "avg_delay res = 2 * delay_ms"
    if "Wrote path (ResultJson res) ok \<in> set (new_events h h1)" for path res ok
  proof -
    from written [OF run that] obtain raw rows where
      "process_results cc prof delay_ms raw = Inr (rows, res)"
      by auto
    from process_results_rows [OF this] show ?thesis
      by (auto simp: mult.commute)
  qed
  have each_row: "\<forall>row \<in> set rows. delay row = 2 * delay_ms"
    if "map delay rows = replicate (length rows) (2 * delay_ms)" for rows
  proof
    fix row assume "row \<in> set rows"
    then have "delay row \<in> set (map delay rows)" by simp
    with that show "delay row = 2 * delay_ms" by auto
  qed
  show ?thesis
  proof (intro conjI allI impI)
    fix path rows ok
    assume w: "Wrote path (ThroughputCsv rows) ok \<in> set (new_events h h1)"
    from rows_delay [OF run w] each_row show "\<forall>row \<in> set rows. delay row = 2 * delay_ms"
      by blast
    from rows_delay [OF run w] show "\<exists>src raw intervals items.
               Loaded src (Inr raw) \<in> set (new_events h h1) \<and>
               dict_get raw ''intervals'' (JArr []) = Inr intervals \<and>
               py_iter intervals = Inr items \<and> length rows = length items"
      by blast
  next
    fix path res ok
    assume "Wrote path (ResultJson res) ok \<in> set (new_events h h1)"
    then show "avg_delay res = 2 * delay_ms"
      by (rule summary_delay)
  next
    fix path rows ok path' rows' ok'
    assume "Wrote path (ThroughputCsv rows) ok \<in> set (new_events h h1) \<and>
            Wrote path' (ThroughputCsv rows') ok' \<in> set (new_events h' h1') \<and>
            length rows = length rows'"
    with rows_delay [OF run, of path rows ok] rows_delay [OF run', of path' rows' ok']
    show "map delay rows = map delay rows'"
      by simp
  qed
qed

theorem trial_delay_is_twice_profile_delay_witness:
  "tc_profile ''profile1'' = Some (10, 50, 62500) \<and>
   Wrote ''/root/networks_assignment/data/profile1_cubic/cubic_throughput.csv''
     (ThroughputCsv [\<lparr>time = JNum 0, throughput = 1, delay = 20, loss = 0\<rparr>]) True
     \<in> set (snd (run_experiment quiet_host ''cubic'' ''profile1'' 60 [])) \<and>
   Wrote ''/root/networks_assignment/data/profile1_cubic/result.json''
     (ResultJson \<lparr>cc_algorithm = ''cubic'', profile = ''profile1'', avg_throughput = 1,
                  avg_delay = 20, loss_rate = 0\<rparr>) True
     \<in> set (snd (run_experiment quiet_host ''cubic'' ''profile1'' 60 [])) \<and>
   Wrote ''/root/networks_assignment/data/profile1_bbr/bbr_throughput.csv''
     (ThroughputCsv [\<lparr>time = JNum 5, throughput = 2, delay = 20, loss = 9 / 1000\<rparr>]) True
     \<in> set (snd (run_experiment other_capture_host ''bbr'' ''profile1'' 30 [])) \<and>
   delay \<lparr>time = JNum 0, throughput = 1, delay = 20, loss = 0\<rparr> = 2 * 10 \<and>
   avg_delay \<lparr>cc_algorithm = ''cubic'', profile = ''profile1'', avg_throughput = 1,
              avg_delay = 20, loss_rate = 0\<rparr> = 2 * 10 \<and>
   map delay [\<lparr>time = JNum 0, throughput = 1, delay = 20, loss = 0\<rparr>] =
   map delay [\<lparr>time = JNum 5, throughput = 2, delay = 20, loss = 9 / 1000\<rparr>]"
proof -
  let ?row = "\<lparr>time = JNum 0, throughput = 1, delay = 20, loss = 0\<rparr>"
  let ?row' = "\<lparr>time = JNum 5, throughput = 2, delay = 20, loss = 9 / 1000\<rparr>"
  let ?res = "\<lparr>cc_algorithm = ''cubic'', profile = ''profile1'', avg_throughput = 1,
               avg_delay = 20, loss_rate = 0\<rparr>"
  obtain r h1 where run: "run_experiment quiet_host ''cubic'' ''profile1'' 60 [] = (r, h1)"
    by (cases "run_experiment quiet_host ''cubic'' ''profile1'' 60 []")
  obtain r' h1' where
    run': "run_experiment other_capture_host ''bbr'' ''profile1'' 30 [] = (r', h1')"
    by (cases "run_experiment other_capture_host ''bbr'' ''profile1'' 30 []")
  have prof: "tc_profile ''profile1'' = Some (10, 50, 62500)"
    by (simp add: tc_profile_def py_int_def)
  have csv: "Wrote ''/root/networks_assignment/data/profile1_cubic/cubic_throughput.csv''
               (ThroughputCsv [?row]) True \<in> set h1"
    and summary: "Wrote ''/root/networks_assignment/data/profile1_cubic/result.json''
               (ResultJson ?res) True \<in> set h1"
    using run by (auto simp: run_defs quiet_host_def)
  have csv': "Wrote ''/root/networks_assignment/data/profile1_bbr/bbr_throughput.csv''
                (ThroughputCsv [?row']) True \<in> set h1'"
    using run' by (auto simp: run_defs quiet_host_def other_capture_host_def)
  have same: "new_events [] h1 = h1" "new_events [] h1' = h1'"
    by (simp_all add: new_events_def)
  note facts = trial_delay_is_twice_profile_delay [OF prof run run', unfolded same]
  from facts csv have "\<forall>row \<in> set [?row]. delay row = 2 * 10"
    by blast
  then have "delay ?row = 2 * 10"
    by simp
  moreover from facts summary have "avg_delay ?res = 2 * 10"
    by blast
  moreover from facts csv csv' have "map delay [?row] = map delay [?row']"
    by (elim conjE allE [of _ "[?row]"]) auto
  ultimately show ?thesis
    using prof csv summary csv' by (simp only: run run' snd_conv)
qed

section \<open>Scheme availability in run\_single\_experiment\<close>

lemma installs_simps [simp]:
  "installs [] = 0"
  "installs (evs @ evs') = installs evs + installs evs'"
  "installs (Ran (PantheonSetup s) lf p # evs) = Suc (installs evs)"
  "installs (Ran (PantheonCheck s) lf p # evs) = installs evs"
  "installs (Ran (PantheonTest s d rt tr dl q) lf p # evs) = installs evs"
  "installs (Ran (PantheonAnalyze d) lf p # evs) = installs evs"
  "installs (Makedirs path ok # evs) = installs evs"
  "installs (Chdir path ok # evs) = installs evs"
  by (simp_all add: installs_def)

lemma run_command_cases:
  assumes "run_command E c lf h = (r, h')"
  obtains (exit) rc where "r = Ret rc" "h' = h @ [Ran c lf (Exit rc)]"
        | (spawn) "r = Raise OSError" "h' = h @ [Ran c lf SpawnError]"
        | (noexit) "r = Hang" "h' = h @ [Ran c lf NoExit]"
  using assms by (auto simp: run_command_def split: proc.splits)

text \<open>
  The steps of a trial from the availability check on, for any test and analysis command:
  what was added to the history tells whether the check failed, and in each case how many
  install commands were run and which command decided the result.
\<close>

lemma check_install_run:
  assumes run:
    "bind_io (run_command E (PantheonCheck scheme) None) (\<lambda>ret.
     bind_io (if ret \<noteq> 0
              then bind_io (run_command E (PantheonSetup scheme) None) (\<lambda>_. return_io ())
              else return_io ()) (\<lambda>_.
     bind_io (run_command E (PantheonTest sc dd rt tr dl q) lf) (\<lambda>ret.
       if ret \<noteq> 0 then return_io ret
       else bind_io (run_command E (PantheonAnalyze dd') lf') (\<lambda>ret. return_io ret)))) h =
     (r, h')"
  shows "\<exists>evs. h' = h @ evs \<and>
           installs evs =
             (if \<exists>rc. rc \<noteq> 0 \<and> Ran (PantheonCheck scheme) None (Exit rc) \<in> set evs
              then 1 else 0) \<and>
           (\<forall>code. r = Ret code \<longrightarrow>
              (\<exists>t. Ran (PantheonTest sc dd rt tr dl q) lf (Exit t) \<in> set evs \<and>
                   (if t \<noteq> 0 then code = t
                    else Ran (PantheonAnalyze dd') lf' (Exit code) \<in> set evs)))"
proof -
  define ran where "ran evs \<longleftrightarrow>
      (\<forall>code. r = Ret code \<longrightarrow>
         (\<exists>t. Ran (PantheonTest sc dd rt tr dl q) lf (Exit t) \<in> set evs \<and>
              (if t \<noteq> 0 then code = t
               else Ran (PantheonAnalyze dd') lf' (Exit code) \<in> set evs)))" for evs
  have ran_mono: "ran evs'" if "ran evs" "set evs \<subseteq> set evs'" for evs evs'
    unfolding ran_def
  proof (intro allI impI)
    fix code assume "r = Ret code"
    with that(1) obtain t where
      t: "Ran (PantheonTest sc dd rt tr dl q) lf (Exit t) \<in> set evs"
         "if t \<noteq> 0 then code = t else Ran (PantheonAnalyze dd') lf' (Exit code) \<in> set evs"
      unfolding ran_def by blast
    with that(2) show "\<exists>t. Ran (PantheonTest sc dd rt tr dl q) lf (Exit t) \<in> set evs' \<and>
              (if t \<noteq> 0 then code = t
               else Ran (PantheonAnalyze dd') lf' (Exit code) \<in> set evs')"
      by (intro exI [of _ t]) (auto split: if_splits)
  qed
  have tail: "\<exists>evs. h2 = h1 @ evs \<and> installs evs = 0 \<and>
                (\<forall>rc. Ran (PantheonCheck scheme) None (Exit rc) \<notin> set evs) \<and> ran evs"
    if "bind_io (run_command E (PantheonTest sc dd rt tr dl q) lf) (\<lambda>ret.
          if ret \<noteq> 0 then return_io ret
          else bind_io (run_command E (PantheonAnalyze dd') lf') (\<lambda>ret. return_io ret)) h1 =
        (r, h2)"
    for h1 h2
    using that
  proof (cases rule: bind_io_cases)
    case (ret t h3)
    from ret(1) have h3: "h3 = h1 @ [Ran (PantheonTest sc dd rt tr dl q) lf (Exit t)]"
      by (cases rule: run_command_cases) auto
    show ?thesis
    proof (cases "t = 0")
      case False
      with ret(2) h3 have "r = Ret t" "h2 = h3"
        by (auto simp: return_io_def)
      with h3 False show ?thesis
        by (intro exI [of _ "[Ran (PantheonTest sc dd rt tr dl q) lf (Exit t)]"])
           (auto simp: ran_def)
    next
      case True
      with ret(2) have
        "bind_io (run_command E (PantheonAnalyze dd') lf') (\<lambda>ret. return_io ret) h3 = (r, h2)"
        by simp
      then show ?thesis
      proof (cases rule: bind_io_cases)
        case (ret a h4)
        from ret(1) have "h4 = h3 @ [Ran (PantheonAnalyze dd') lf' (Exit a)]"
          by (cases rule: run_command_cases) auto
        with ret(2) have "r = Ret a" "h2 = h3 @ [Ran (PantheonAnalyze dd') lf' (Exit a)]"
          by (auto simp: return_io_def)
        with h3 True show ?thesis
          by (intro exI [of _ "[Ran (PantheonTest sc dd rt tr dl q) lf (Exit t),
                                Ran (PantheonAnalyze dd') lf' (Exit a)]"])
             (auto simp: ran_def)
      next
        case (raise e)
        from raise(1) have "h2 = h3 @ [Ran (PantheonAnalyze dd') lf' SpawnError]"
          by (cases rule: run_command_cases) auto
        with raise(2) h3 show ?thesis
          by (intro exI [of _ "[Ran (PantheonTest sc dd rt tr dl q) lf (Exit t),
                                Ran (PantheonAnalyze dd') lf' SpawnError]"])
             (auto simp: ran_def)
      next
        case hang
        from hang(1) have "h2 = h3 @ [Ran (PantheonAnalyze dd') lf' NoExit]"
          by (cases rule: run_command_cases) auto
        with hang(2) h3 show ?thesis
          by (intro exI [of _ "[Ran (PantheonTest sc dd rt tr dl q) lf (Exit t),
                                Ran (PantheonAnalyze dd') lf' NoExit]"])
             (auto simp: ran_def)
      qed
    qed
  next
    case (raise e)
    from raise(1) have "h2 = h1 @ [Ran (PantheonTest sc dd rt tr dl q) lf SpawnError]"
      by (cases rule: run_command_cases) auto
    with raise(2) show ?thesis
      by (intro exI [of _ "[Ran (PantheonTest sc dd rt tr dl q) lf SpawnError]"])
         (auto simp: ran_def)
  next
    case hang
    from hang(1) have "h2 = h1 @ [Ran (PantheonTest sc dd rt tr dl q) lf NoExit]"
      by (cases rule: run_command_cases) auto
    with hang(2) show ?thesis
      by (intro exI [of _ "[Ran (PantheonTest sc dd rt tr dl q) lf NoExit]"])
         (auto simp: ran_def)
  qed
  have "\<exists>evs. h' = h @ evs \<and>
           installs evs =
             (if \<exists>rc. rc \<noteq> 0 \<and> Ran (PantheonCheck scheme) None (Exit rc) \<in> set evs
              then 1 else 0) \<and> ran evs"
    using run
  proof (cases rule: bind_io_cases)
    case (ret c h1)
    from ret(1) have h1: "h1 = h @ [Ran (PantheonCheck scheme) None (Exit c)]"
      by (cases rule: run_command_cases) auto
    show ?thesis
    proof (cases "c = 0")
      case True
      with ret(2) have
        "bind_io (run_command E (PantheonTest sc dd rt tr dl q) lf) (\<lambda>ret.
           if ret \<noteq> 0 then return_io ret
           else bind_io (run_command E (PantheonAnalyze dd') lf') (\<lambda>ret. return_io ret)) h1 =
         (r, h')"
        by (simp add: bind_io_def return_io_def)
      from tail [OF this] obtain evs where
        evs: "h' = h1 @ evs" "installs evs = 0"
             "\<forall>rc. Ran (PantheonCheck scheme) None (Exit rc) \<notin> set evs" "ran evs"
        by blast
      have "ran (Ran (PantheonCheck scheme) None (Exit c) # evs)"
        using evs(4) by (rule ran_mono) auto
      with evs h1 True show ?thesis
        by (intro exI [of _ "Ran (PantheonCheck scheme) None (Exit c) # evs"]) auto
    next
      case False
      with ret(2) have
        "bind_io (bind_io (run_command E (PantheonSetup scheme) None) (\<lambda>_. return_io ())) (\<lambda>_.
         bind_io (run_command E (PantheonTest sc dd rt tr dl q) lf) (\<lambda>ret.
           if ret \<noteq> 0 then return_io ret
           else bind_io (run_command E (PantheonAnalyze dd') lf') (\<lambda>ret. return_io ret))) h1 =
         (r, h')"
        by simp
      then show ?thesis
      proof (cases rule: bind_io_cases)
        case (ret u h2)
        then have "\<exists>i. h2 = h1 @ [Ran (PantheonSetup scheme) None (Exit i)]"
          by (auto simp: bind_io_def return_io_def run_command_def split: proc.splits)
        then obtain i where h2: "h2 = h1 @ [Ran (PantheonSetup scheme) None (Exit i)]" ..
        from tail [OF ret(2)] obtain evs where
          evs: "h' = h2 @ evs" "installs evs = 0"
               "\<forall>rc. Ran (PantheonCheck scheme) None (Exit rc) \<notin> set evs" "ran evs"
          by blast
        have "ran (Ran (PantheonCheck scheme) None (Exit c) #
                   Ran (PantheonSetup scheme) None (Exit i) # evs)"
          using evs(4) by (rule ran_mono) auto
        with evs h1 h2 False show ?thesis
          by (intro exI [of _ "Ran (PantheonCheck scheme) None (Exit c) #
                               Ran (PantheonSetup scheme) None (Exit i) # evs"]) auto
      next
        case (raise e)
        then have "h' = h1 @ [Ran (PantheonSetup scheme) None SpawnError]"
          by (auto simp: bind_io_def return_io_def run_command_def split: proc.splits)
        with raise(2) h1 False show ?thesis
          by (intro exI [of _ "[Ran (PantheonCheck scheme) None (Exit c),
                                Ran (PantheonSetup scheme) None SpawnError]"])
             (auto simp: ran_def)
      next
        case hang
        then have "h' = h1 @ [Ran (PantheonSetup scheme) None NoExit]"
          by (auto simp: bind_io_def return_io_def run_command_def split: proc.splits)
        with hang(2) h1 False show ?thesis
          by (intro exI [of _ "[Ran (PantheonCheck scheme) None (Exit c),
                                Ran (PantheonSetup scheme) None NoExit]"])
             (auto simp: ran_def)
      qed
    qed
  next
    case (raise e)
    from raise(1) have "h' = h @ [Ran (PantheonCheck scheme) None SpawnError]"
      by (cases rule: run_command_cases) auto
    with raise(2) show ?thesis
      by (intro exI [of _ "[Ran (PantheonCheck scheme) None SpawnError]"])
         (auto simp: ran_def)
  next
    case hang
    from hang(1) have "h' = h @ [Ran (PantheonCheck scheme) None NoExit]"
      by (cases rule: run_command_cases) auto
    with hang(2) show ?thesis
      by (intro exI [of _ "[Ran (PantheonCheck scheme) None NoExit]"])
         (auto simp: ran_def)
  qed
  then show ?thesis
    unfolding ran_def .
qed

text \<open>
  C7, as stated, fails. On a host where the scheme is not installed and the install
  command fails too, the trial does not stop after the install attempt: it goes on to the
  test run, and its result is the return code of that run.
\<close>

theorem install_failure_still_runs_counterexample:
  "run_single_experiment no_scheme_host ''bbr'' ''profile1'' 60 [] =
     (Ret 1,
      [Makedirs ''/root/networks_assignment/logs'' True,
       Makedirs ''/root/networks_assignment/data/profile1_bbr'' True,
       Chdir ''/root/networks_assignment/pantheon'' True,
       Ran (PantheonCheck ''bbr'') None (Exit 1),
       Ran (PantheonSetup ''bbr'') None (Exit 1),
       Ran (PantheonTest ''bbr'' ''/root/networks_assignment/data/profile1_bbr'' 60
              ''/root/networks_assignment/traces/50mbps.trace'' 10 62500)
           (Some ''/root/networks_assignment/logs/profile1_bbr.log'') (Exit 1)])"
  by (simp add: run_single_experiment_def no_scheme_host_def quiet_host_def
        pantheon_profile_def bind_io_def return_io_def run_command_def os_makedirs_def
        os_chdir_def Let_def)

text \<open>
  C7, amended. In every trial the install command is run exactly once when the
  availability check exits with a nonzero code and not at all otherwise; its result is
  ignored. A trial of a known profile that returns has then run the test command, and its
  result is the test's return code when that is nonzero and the return code of the
  analysis otherwise.
\<close>

theorem install_once_then_run:
  assumes run: "run_single_experiment E scheme prof runtime h = (r, h')"
  shows "installs (new_events h h') =
           (if \<exists>rc. rc \<noteq> 0 \<and>
                 Ran (PantheonCheck scheme) None (Exit rc) \<in> set (new_events h h')
            then 1 else 0) \<and>
         (\<forall>code. r = Ret code \<and> pantheon_profile prof \<noteq> None \<longrightarrow>
            (\<exists>data_dir trace delay_ms queue log_file log_file' t.
               Ran (PantheonTest scheme data_dir runtime trace delay_ms queue) log_file (Exit t)
                 \<in> set (new_events h h') \<and>
               (if t \<noteq> 0 then code = t
                else Ran (PantheonAnalyze data_dir) log_file' (Exit code)
                       \<in> set (new_events h h'))))"
proof -
  define good where "good evs \<longleftrightarrow>
      installs evs =
        (if \<exists>rc. rc \<noteq> 0 \<and> Ran (PantheonCheck scheme) None (Exit rc) \<in> set evs
         then 1 else 0) \<and>
      (\<forall>code. r = Ret code \<and> pantheon_profile prof \<noteq> None \<longrightarrow>
         (\<exists>data_dir trace delay_ms queue log_file log_file' t.
            Ran (PantheonTest scheme data_dir runtime trace delay_ms queue) log_file (Exit t)
              \<in> set evs \<and>
            (if t \<noteq> 0 then code = t
             else Ran (PantheonAnalyze data_dir) log_file' (Exit code) \<in> set evs)))" for evs
  define L where "L = (home E @ ''/networks_assignment'') @ ''/logs''"
  define D where "D = (home E @ ''/networks_assignment'') @ ''/data/'' @ prof @ ''_'' @ scheme"
  define P where "P = (home E @ ''/networks_assignment'') @ ''/pantheon''"
  have good_early: "good evs"
    if "installs evs = 0" "\<And>rc. Ran (PantheonCheck scheme) None (Exit rc) \<notin> set evs"
       "\<And>code. r = Ret code \<Longrightarrow> pantheon_profile prof = None" for evs
    using that by (auto simp: good_def)
  have "\<exists>evs. h' = h @ evs \<and> good evs"
    using run [unfolded run_single_experiment_def Let_def, folded L_def D_def P_def]
  proof (cases rule: bind_io_cases)
    case (ret u1 h1)
    then have h1: "h1 = h @ [Makedirs L True]"
      by (auto simp: os_makedirs_def split: if_splits)
    from ret(2) show ?thesis
    proof (cases rule: bind_io_cases)
      case (ret u2 h2)
      then have h2: "h2 = h1 @ [Makedirs D True]"
        by (auto simp: os_makedirs_def split: if_splits)
      show ?thesis
      proof (cases "pantheon_profile prof")
        case None
        with ret(2) have "r = Ret 1" "h' = h2"
          by (auto simp: return_io_def)
        with h1 h2 None show ?thesis
          by (intro exI [of _ "[Makedirs L True, Makedirs D True]"] conjI good_early) auto
      next
        case (Some params)
        obtain d b q tr where params: "params = (d, b, q, tr)" by (cases params)
        from ret(2) show ?thesis
          unfolding Some params option.case prod.case
        proof (cases rule: bind_io_cases)
          case (ret u3 h3)
          then have h3: "h3 = h2 @ [Chdir P True]"
            by (auto simp: os_chdir_def split: if_splits)
          from check_install_run [OF ret(2)] obtain evs where
            evs: "h' = h3 @ evs"
              "installs evs =
                 (if \<exists>rc. rc \<noteq> 0 \<and> Ran (PantheonCheck scheme) None (Exit rc) \<in> set evs
                  then 1 else 0)"
              "\<forall>code. r = Ret code \<longrightarrow>
                 (\<exists>t. Ran (PantheonTest scheme D runtime ((home E @ ''/networks_assignment'') @ tr)
                             d q)
                          (Some ((home E @ ''/networks_assignment'') @
                                 ''/logs/'' @ prof @ ''_'' @ scheme @ ''.log'')) (Exit t)
                        \<in> set evs \<and>
                      (if t \<noteq> 0 then code = t
                       else Ran (PantheonAnalyze D)
                              (Some (((home E @ ''/networks_assignment'') @
                                      ''/logs/'' @ prof @ ''_'' @ scheme @ ''.log'') @
                                     ''.analyze'')) (Exit code) \<in> set evs))"
            by blast
          have "good ([Makedirs L True, Makedirs D True, Chdir P True] @ evs)"
            unfolding good_def
          proof (intro conjI allI impI)
            show "installs ([Makedirs L True, Makedirs D True, Chdir P True] @ evs) =
                (if \<exists>rc. rc \<noteq> 0 \<and> Ran (PantheonCheck scheme) None (Exit rc)
                        \<in> set ([Makedirs L True, Makedirs D True, Chdir P True] @ evs)
                 then 1 else 0)"
              using evs(2) by auto
          next
            fix code
            assume "r = Ret code \<and> pantheon_profile prof \<noteq> None"
            with evs(3) obtain t where
              "Ran (PantheonTest scheme D runtime ((home E @ ''/networks_assignment'') @ tr)
                      d q)
                   (Some ((home E @ ''/networks_assignment'') @
                          ''/logs/'' @ prof @ ''_'' @ scheme @ ''.log'')) (Exit t)
                 \<in> set evs"
              "if t \<noteq> 0 then code = t
               else Ran (PantheonAnalyze D)
                      (Some (((home E @ ''/networks_assignment'') @
                              ''/logs/'' @ prof @ ''_'' @ scheme @ ''.log'') @
                             ''.analyze'')) (Exit code) \<in> set evs"
              by blast
            then show "\<exists>data_dir trace delay_ms queue log_file log_file' t.
                Ran (PantheonTest scheme data_dir runtime trace delay_ms queue) log_file (Exit t)
                  \<in> set ([Makedirs L True, Makedirs D True, Chdir P True] @ evs) \<and>
                (if t \<noteq> 0 then code = t
                 else Ran (PantheonAnalyze data_dir) log_file' (Exit code)
                        \<in> set ([Makedirs L True, Makedirs D True, Chdir P True] @ evs))"
              by (intro exI [of _ D] exI [of _ "(home E @ ''/networks_assignment'') @ tr"]
                    exI [of _ d] exI [of _ q]
                    exI [of _ "Some ((home E @ ''/networks_assignment'') @
                                     ''/logs/'' @ prof @ ''_'' @ scheme @ ''.log'')"]
                    exI [of _ "Some (((home E @ ''/networks_assignment'') @
                                      ''/logs/'' @ prof @ ''_'' @ scheme @ ''.log'') @
                                     ''.analyze'')"]
                    exI [of _ t])
                 (auto split: if_splits)
          qed
          with evs(1) h1 h2 h3 show ?thesis
            by (intro exI [of _ "[Makedirs L True, Makedirs D True, Chdir P True] @ evs"]) simp
        next
          case (raise e)
          then have "h' = h2 @ [Chdir P False]"
            by (auto simp: os_chdir_def split: if_splits)
          with raise(2) h1 h2 show ?thesis
            by (intro exI [of _ "[Makedirs L True, Makedirs D True, Chdir P False]"]
                  conjI good_early) auto
        next
          case hang
          then show ?thesis
            by (auto simp: os_chdir_def split: if_splits)
        qed
      qed
    next
      case (raise e)
      then have "h' = h1 @ [Makedirs D False]"
        by (auto simp: os_makedirs_def split: if_splits)
      with raise(2) h1 show ?thesis
        by (intro exI [of _ "[Makedirs L True, Makedirs D False]"] conjI good_early) auto
    next
      case hang
      then show ?thesis
        by (auto simp: os_makedirs_def split: if_splits)
    qed
  next
    case (raise e)
    then have "h' = h @ [Makedirs L False]"
      by (auto simp: os_makedirs_def split: if_splits)
    with raise(2) show ?thesis
      by (intro exI [of _ "[Makedirs L False]"] conjI good_early) auto
  next
    case hang
    then show ?thesis
      by (auto simp: os_makedirs_def split: if_splits)
  qed
  then obtain evs where ext: "h' = h @ evs" and good: "good evs" by blast
  from ext have "new_events h h' = evs" by simp
  with good [unfolded good_def] show ?thesis by blast
qed

theorem install_once_then_run_witness:
  "fst (run_single_experiment installable_host ''bbr'' ''profile1'' 60 []) = Ret 0 \<and>
   installs (snd (run_single_experiment installable_host ''bbr'' ''profile1'' 60 [])) = 1 \<and>
   (\<exists>data_dir trace delay_ms queue log_file log_file' t.
      Ran (PantheonTest ''bbr'' data_dir 60 trace delay_ms queue) log_file (Exit t)
        \<in> set (snd (run_single_experiment installable_host ''bbr'' ''profile1'' 60 [])) \<and>
      (if t \<noteq> 0 then (0::int) = t
       else Ran (PantheonAnalyze data_dir) log_file' (Exit 0)
              \<in> set (snd (run_single_experiment installable_host ''bbr'' ''profile1'' 60 []))))"
proof -
  obtain r h where run: "run_single_experiment installable_host ''bbr'' ''profile1'' 60 [] = (r, h)"
    by (cases "run_single_experiment installable_host ''bbr'' ''profile1'' 60 []")
  have r: "r = Ret 0" and check: "Ran (PantheonCheck ''bbr'') None (Exit 1) \<in> set h"
    using run
    by (auto simp: run_single_experiment_def installable_host_def quiet_host_def
          pantheon_profile_def bind_io_def return_io_def run_command_def os_makedirs_def
          os_chdir_def Let_def)
  have known: "pantheon_profile ''profile1'' \<noteq> None"
    by (simp add: pantheon_profile_def)
  have unavailable: "\<exists>rc. rc \<noteq> 0 \<and> Ran (PantheonCheck ''bbr'') None (Exit rc) \<in> set h"
    using check by (intro exI [of _ 1]) simp
  have same: "new_events [] h = h"
    by (simp add: new_events_def)
  from install_once_then_run [OF run, unfolded same] have
    count: "installs h =
              (if \<exists>rc. rc \<noteq> 0 \<and> Ran (PantheonCheck ''bbr'') None (Exit rc) \<in> set h
               then 1 else 0)" and
    ran: "\<forall>code. r = Ret code \<and> pantheon_profile ''profile1'' \<noteq> None \<longrightarrow>
            (\<exists>data_dir trace delay_ms queue log_file log_file' t.
               Ran (PantheonTest ''bbr'' data_dir 60 trace delay_ms queue) log_file (Exit t)
                 \<in> set h \<and>
               (if t \<noteq> 0 then code = t
                else Ran (PantheonAnalyze data_dir) log_file' (Exit code) \<in> set h))"
    by blast+
  from count unavailable have "installs h = 1"
    by simp
  moreover from ran r known have
    "\<exists>data_dir trace delay_ms queue log_file log_file' t.
       Ran (PantheonTest ''bbr'' data_dir 60 trace delay_ms queue) log_file (Exit t) \<in> set h \<and>
       (if t \<noteq> 0 then (0::int) = t
        else Ran (PantheonAnalyze data_dir) log_file' (Exit 0) \<in> set h)"
    by blast
  ultimately show ?thesis
    using r by (simp only: run fst_conv snd_conv)
qed

section \<open>The schedulers\<close>

text \<open>
  In \<^verbatim>\<open>run_experiments.main\<close> the outcome of the batch is decided by the collected
  results: 0 exactly when all of them are 0, and 1 otherwise; the script exits with it.
\<close>

lemma main_run_experiments_outcome:
  assumes "(if arg_parallel > 1
            then starmap E arg_parallel (experiment_grid arg_schemes arg_profiles arg_runtime)
            else run_sequential E (experiment_grid arg_schemes arg_profiles arg_runtime) []) h =
           (Ret results, h')"
  shows "main_run_experiments E arg_schemes arg_profiles arg_runtime arg_parallel h =
           (Ret (if \<forall>r \<in> set results. r = 0 then 0 else 1), h')"
    and "script_run_experiments E arg_schemes arg_profiles arg_runtime arg_parallel h =
           Some (if \<forall>r \<in> set results. r = 0 then 0 else 1)"
  using assms
  by (auto simp: main_run_experiments_def script_run_experiments_def Let_def bind_io_def
        return_io_def list_all_iff split: if_splits)

text \<open>
  The sequential loop runs every trial of the grid as long as each trial returns, whatever
  the returned codes are: a nonzero result does not end the loop.
\<close>

lemma run_sequential_runs_all:
  assumes "\<And>scheme prof runtime h. (scheme, prof, runtime) \<in> set experiments \<Longrightarrow>
             \<exists>code h'. run_single_experiment E scheme prof runtime h = (Ret code, h')"
  shows "\<exists>results h'. run_sequential E experiments acc h = (Ret results, h') \<and>
           length results = length acc + length experiments"
  using assms
proof (induction experiments arbitrary: acc h)
  case Nil
  then show ?case by (simp add: return_io_def)
next
  case (Cons exp rest)
  obtain scheme prof runtime where exp: "exp = (scheme, prof, runtime)" by (cases exp)
  from Cons.prems [of scheme prof runtime h] exp obtain code h1 where
    first: "run_single_experiment E scheme prof runtime h = (Ret code, h1)"
    by auto
  have "\<exists>results h'. run_sequential E rest (acc @ [code]) h1 = (Ret results, h') \<and>
          length results = length (acc @ [code]) + length rest"
    by (rule Cons.IH) (use Cons.prems in auto)
  with first exp show ?case
    by (auto simp: bind_io_def)
qed

text \<open>
  \<^verbatim>\<open>tc_experiment.main\<close> returns 0 whenever some scheme is available and every trial
  returns, whatever the trials returned.
\<close>

lemma for_each_returns:
  assumes "\<And>x h. x \<in> set xs \<Longrightarrow> \<exists>h'. body x h = (Ret (), h')"
  shows "\<exists>h'. for_each xs body h = (Ret (), h')"
  using assms
proof (induction xs arbitrary: h)
  case Nil
  then show ?case by (simp add: return_io_def)
next
  case (Cons x xs)
  from Cons.prems [of x h] obtain h1 where "body x h = (Ret (), h1)" by auto
  moreover have "\<exists>h'. for_each xs body h1 = (Ret (), h')"
    by (rule Cons.IH) (use Cons.prems in auto)
  ultimately show ?case by (auto simp: bind_io_def)
qed

lemma main_tc_experiment_returns_zero:
  assumes trials: "\<And>scheme prof h. \<exists>code h'.
             run_experiment E scheme prof arg_runtime h = (Ret code, h')"
    and available: "\<exists>scheme \<in> set arg_schemes. scheme \<in> set (get_available_cc_algorithms E)"
  shows "fst (main_tc_experiment E arg_schemes arg_profiles arg_runtime h) = Ret 0"
proof -
  let ?schemes = "filter (\<lambda>scheme. scheme \<in> set (get_available_cc_algorithms E)) arg_schemes"
  have inner: "\<exists>h'. for_each arg_profiles (\<lambda>prof.
                  bind_io (run_experiment E scheme prof arg_runtime) (\<lambda>result.
                  return_io ())) h = (Ret (), h')" for scheme h
  proof (rule for_each_returns)
    fix prof h0
    from trials [of scheme prof h0] obtain code h1 where
      "run_experiment E scheme prof arg_runtime h0 = (Ret code, h1)" by blast
    then show "\<exists>h'. bind_io (run_experiment E scheme prof arg_runtime)
                       (\<lambda>result. return_io ()) h0 = (Ret (), h')"
      by (simp add: bind_io_def return_io_def)
  qed
  have "\<exists>h'. for_each ?schemes (\<lambda>scheme.
                for_each arg_profiles (\<lambda>prof.
                  bind_io (run_experiment E scheme prof arg_runtime) (\<lambda>result.
                  return_io ()))) h = (Ret (), h')"
    by (rule for_each_returns) (rule inner)
  moreover have "?schemes \<noteq> []"
    using available by (auto simp: filter_empty_conv)
  ultimately show ?thesis
    by (auto simp: main_tc_experiment_def Let_def bind_io_def return_io_def)
qed

lemmas main_defs =
  main_tc_experiment_def script_tc_experiment_def get_available_cc_algorithms_def

text \<open>
  C2. The claim holds for \<^verbatim>\<open>run_experiments.py\<close> (lemma \<open>main_run_experiments_outcome\<close>)
  but not for \<^verbatim>\<open>tc_experiment.py\<close>: its only trial fails (unknown profile, result 1),
  yet \<^verbatim>\<open>main\<close> returns 0 and the script exits with 0.
\<close>

theorem tc_script_exits_zero_after_failed_trial:
  "fst (run_experiment quiet_host ''cubic'' ''profile3'' 60 []) = Ret 1 \<and>
   fst (main_tc_experiment quiet_host [''cubic''] [''profile3''] 60 []) = Ret 0 \<and>
   script_tc_experiment quiet_host [''cubic''] [''profile3''] 60 [] = Some 0"
  by (simp add: main_defs run_defs quiet_host_def)

text \<open>
  C8. The failing trial does not stop the batch in \<^verbatim>\<open>tc_experiment.main\<close>: after the
  trial on the unknown profile returned 1, the trial on profile1 runs to its end and its
  summary is written. But the batch as a whole reports success: \<^verbatim>\<open>main\<close> returns 0.
\<close>

theorem tc_batch_succeeds_with_one_failed_trial:
  "fst (run_experiment quiet_host ''cubic'' ''profile3'' 60 []) = Ret 1 \<and>
   Wrote ''/root/networks_assignment/data/profile1_cubic/result.json''
     (ResultJson \<lparr>cc_algorithm = ''cubic'', profile = ''profile1'', avg_throughput = 1,
                  avg_delay = 20, loss_rate = 0\<rparr>) True
     \<in> set (snd (main_tc_experiment quiet_host [''cubic''] [''profile3'', ''profile1''] 60 [])) \<and>
   fst (main_tc_experiment quiet_host [''cubic''] [''profile3'', ''profile1''] 60 []) = Ret 0"
  by (simp add: main_defs run_defs quiet_host_def)

section \<open>The comparison table\<close>

lemma map_of_dict_set: "map_of (dict_set kvs k v) = (map_of kvs)(k \<mapsto> v)"
  by (induction kvs) auto

lemma keys_dict_set: "fst ` set (dict_set kvs k v) = insert k (fst ` set kvs)"
proof (induction kvs)
  case Nil
  then show ?case by simp
next
  case (Cons kv kvs)
  obtain k' v' where kv: "kv = (k', v')" by (cases kv)
  show ?case
    by (cases "k' = k") (use Cons kv in auto)
qed

lemma distinct_dict_set:
  "distinct (map fst kvs) \<Longrightarrow> distinct (map fst (dict_set kvs k v))"
proof (induction kvs)
  case Nil
  then show ?case by simp
next
  case (Cons kv kvs)
  obtain k' v' where kv: "kv = (k', v')" by (cases kv)
  show ?case
  proof (cases "k' = k")
    case True
    with Cons.prems kv show ?thesis by simp
  next
    case False
    from Cons.prems kv have "k' \<notin> fst ` set kvs" "distinct (map fst kvs)"
      by simp_all
    with False have "k' \<notin> fst ` set (dict_set kvs k v)"
      by (simp add: keys_dict_set)
    with False kv Cons.IH \<open>distinct (map fst kvs)\<close> show ?thesis
      by simp
  qed
qed

lemma stored_entry_store:
  "stored_entry (store_entry results p s e) p' s' =
     (if p' = p \<and> s' = s then Some e else stored_entry results p' s')"
  by (auto simp: stored_entry_def store_entry_def map_of_dict_set split: option.splits)

lemma distinct_store_entry:
  "distinct (map fst results) \<Longrightarrow> distinct (map fst (store_entry results p s e))"
  by (simp add: store_entry_def distinct_dict_set)

lemma split_dir_name:
  assumes "CHR ''_'' \<notin> set prof"
  shows "takeWhile (\<lambda>c. c \<noteq> CHR ''_'') (prof @ ''_'' @ scheme) = prof"
    and "tl (dropWhile (\<lambda>c. c \<noteq> CHR ''_'') (prof @ ''_'' @ scheme)) = scheme"
    and "CHR ''_'' \<in> set (prof @ ''_'' @ scheme)"
proof -
  have all: "\<forall>c \<in> set prof. c \<noteq> CHR ''_''"
    using assms by auto
  then show "takeWhile (\<lambda>c. c \<noteq> CHR ''_'') (prof @ ''_'' @ scheme) = prof"
    by (simp add: takeWhile_append2)
  from all show "tl (dropWhile (\<lambda>c. c \<noteq> CHR ''_'') (prof @ ''_'' @ scheme)) = scheme"
    by (simp add: dropWhile_append2)
  show "CHR ''_'' \<in> set (prof @ ''_'' @ scheme)"
    by simp
qed

lemma split_dir_name_inj:
  assumes "CHR ''_'' \<in> set d"
  shows "d = takeWhile (\<lambda>c. c \<noteq> CHR ''_'') d @ ''_'' @ tl (dropWhile (\<lambda>c. c \<noteq> CHR ''_'') d)"
proof -
  from assms have ne: "dropWhile (\<lambda>c. c \<noteq> CHR ''_'') d \<noteq> []"
    by (auto simp: dropWhile_eq_Nil_conv)
  then have "hd (dropWhile (\<lambda>c. c \<noteq> CHR ''_'') d) = CHR ''_''"
    using hd_dropWhile [of "\<lambda>c. c \<noteq> CHR ''_''" d] by simp
  with ne have "dropWhile (\<lambda>c. c \<noteq> CHR ''_'') d = ''_'' @ tl (dropWhile (\<lambda>c. c \<noteq> CHR ''_'') d)"
    by (cases "dropWhile (\<lambda>c. c \<noteq> CHR ''_'') d") auto
  then show ?thesis
    using takeWhile_dropWhile_id [of "\<lambda>c. c \<noteq> CHR ''_''" d] by simp
qed

text \<open>What one pass of the loop body does to the dictionary.\<close>

lemma process_result_file_cases:
  assumes "process_result_file fs data_dir d results = Inr results'"
  obtains (skip) "results' = results"
        | (store) result_data e where
            "CHR ''_'' \<in> set d"
            "fs (data_dir @ ''/'' @ d @ ''/result.json'') = Some (JsonDoc result_data)"
            "adjusted_throughput (takeWhile (\<lambda>c. c \<noteq> CHR ''_'') d) result_data =
               Inr (entry_avg_throughput e)"
            "results' = store_entry results (takeWhile (\<lambda>c. c \<noteq> CHR ''_'') d)
                          (tl (dropWhile (\<lambda>c. c \<noteq> CHR ''_'') d)) e"
proof (cases "CHR ''_'' \<in> set d")
  case False
  with assms have "results' = results"
    by (simp add: process_result_file_def)
  then show ?thesis by (rule skip)
next
  case True
  show ?thesis
  proof (cases "fs (data_dir @ ''/'' @ d @ ''/result.json'')")
    case None
    with assms True have "results' = results"
      by (simp add: process_result_file_def Let_def)
    then show ?thesis by (rule skip)
  next
    case (Some doc)
    show ?thesis
    proof (cases doc)
      case (JsonDoc result_data)
      with assms True Some have
        "bind_err (adjusted_throughput (takeWhile (\<lambda>c. c \<noteq> CHR ''_'') d) result_data)
           (\<lambda>adjusted.
            bind_err (dict_get result_data ''avg_delay'' (JNum 0)) (\<lambda>avg_delay_v.
            bind_err (dict_get result_data ''loss_rate'' (JNum 0)) (\<lambda>loss_rate_v.
              Inr (store_entry results (takeWhile (\<lambda>c. c \<noteq> CHR ''_'') d)
                     (tl (dropWhile (\<lambda>c. c \<noteq> CHR ''_'') d))
                     \<lparr>entry_avg_throughput = adjusted,
                      entry_avg_delay = avg_delay_v,
                      entry_loss_rate = loss_rate_v,
                      entry_throughput_data =
                        load_throughput_data fs
                          ((data_dir @ ''/'' @ d) @ ''/'' @
                           tl (dropWhile (\<lambda>c. c \<noteq> CHR ''_'') d) @
                           ''_throughput.csv'')\<rparr>)))) = Inr results'"
        by (simp add: process_result_file_def Let_def)
      then obtain adjusted dl lr where
        adj: "adjusted_throughput (takeWhile (\<lambda>c. c \<noteq> CHR ''_'') d) result_data =
                Inr adjusted" and
        res: "results' = store_entry results (takeWhile (\<lambda>c. c \<noteq> CHR ''_'') d)
                      (tl (dropWhile (\<lambda>c. c \<noteq> CHR ''_'') d))
                      \<lparr>entry_avg_throughput = adjusted, entry_avg_delay = dl,
                       entry_loss_rate = lr,
                       entry_throughput_data =
                         load_throughput_data fs
                           ((data_dir @ ''/'' @ d) @ ''/'' @
                            tl (dropWhile (\<lambda>c. c \<noteq> CHR ''_'') d) @
                            ''_throughput.csv'')\<rparr>"
        unfolding bind_err_Inr by auto
      show ?thesis
      proof (rule store)
        show "CHR ''_'' \<in> set d" by (rule True)
        show "fs (data_dir @ ''/'' @ d @ ''/result.json'') = Some (JsonDoc result_data)"
          using Some JsonDoc by simp
        show "results' = store_entry results (takeWhile (\<lambda>c. c \<noteq> CHR ''_'') d)
                      (tl (dropWhile (\<lambda>c. c \<noteq> CHR ''_'') d))
                      \<lparr>entry_avg_throughput = adjusted, entry_avg_delay = dl,
                       entry_loss_rate = lr,
                       entry_throughput_data =
                         load_throughput_data fs
                           ((data_dir @ ''/'' @ d) @ ''/'' @
                            tl (dropWhile (\<lambda>c. c \<noteq> CHR ''_'') d) @
                            ''_throughput.csv'')\<rparr>"
          by (rule res)
        show "adjusted_throughput (takeWhile (\<lambda>c. c \<noteq> CHR ''_'') d) result_data =
                Inr (entry_avg_throughput
                       \<lparr>entry_avg_throughput = adjusted, entry_avg_delay = dl,
                        entry_loss_rate = lr,
                        entry_throughput_data =
                          load_throughput_data fs
                            ((data_dir @ ''/'' @ d) @ ''/'' @
                             tl (dropWhile (\<lambda>c. c \<noteq> CHR ''_'') d) @
                             ''_throughput.csv'')\<rparr>)"
          using adj by simp
      qed
    next
      case (Frame columns rows)
      with assms True Some have "results' = results"
        by (simp add: process_result_file_def Let_def)
      then show ?thesis by (rule skip)
    next
      case Png
      with assms True Some have "results' = results"
        by (simp add: process_result_file_def Let_def)
      then show ?thesis by (rule skip)
    next
      case Other
      with assms True Some have "results' = results"
        by (simp add: process_result_file_def Let_def)
      then show ?thesis by (rule skip)
    qed
  qed
qed

lemma process_result_file_distinct:
  assumes "process_result_file fs data_dir d results = Inr results'"
    and "distinct (map fst results)"
  shows "distinct (map fst results')"
  using assms(1)
  by (cases rule: process_result_file_cases) (simp_all add: assms(2) distinct_store_entry)

lemma collect_results_distinct:
  "collect_results fs data_dir ds results = Inr results' \<Longrightarrow> distinct (map fst results) \<Longrightarrow>
     distinct (map fst results')"
proof (induction ds arbitrary: results)
  case Nil
  then show ?case by simp
next
  case (Cons d ds)
  from Cons.prems(1) obtain r1 where
    "process_result_file fs data_dir d results = Inr r1"
    "collect_results fs data_dir ds r1 = Inr results'"
    by (auto simp: bind_err_Inr)
  with Cons.IH Cons.prems(2) process_result_file_distinct show ?case by blast
qed

text \<open>
  For the stored record of \<open>prof\<close> and \<open>scheme\<close>: every pass keeps the entry of that pair
  showing the adjusted throughput, and the pass over the record's own directory creates
  the entry.
\<close>

lemma process_result_file_shown:
  assumes step: "process_result_file fs data_dir d' results = Inr results'"
    and noscore: "CHR ''_'' \<notin> set prof"
    and doc: "fs (data_dir @ ''/'' @ (prof @ ''_'' @ scheme) @ ''/result.json'') =
                Some (JsonDoc result_data)"
    and shown: "adjusted_throughput prof result_data = Inr v"
    and inv: "\<forall>e. stored_entry results prof scheme = Some e \<longrightarrow> entry_avg_throughput e = v"
  shows "\<forall>e. stored_entry results' prof scheme = Some e \<longrightarrow> entry_avg_throughput e = v"
  using step
proof (cases rule: process_result_file_cases)
  case skip
  with inv show ?thesis by simp
next
  case (store rd e)
  show ?thesis
  proof (cases "takeWhile (\<lambda>c. c \<noteq> CHR ''_'') d' = prof \<and>
                tl (dropWhile (\<lambda>c. c \<noteq> CHR ''_'') d') = scheme")
    case True
    with split_dir_name_inj [OF store(1)] have "d' = prof @ ''_'' @ scheme"
      by simp
    with store(2) doc have "rd = result_data" by simp
    with store(3) True shown have "entry_avg_throughput e = v" by simp
    with store(4) True show ?thesis
      by (simp add: stored_entry_store)
  next
    case False
    with store(4) inv show ?thesis
      by (auto simp: stored_entry_store)
  qed
qed

lemma process_result_file_keeps:
  assumes "process_result_file fs data_dir d' results = Inr results'"
    and "stored_entry results prof scheme \<noteq> None"
  shows "stored_entry results' prof scheme \<noteq> None"
  using assms(1)
  by (cases rule: process_result_file_cases) (use assms(2) in \<open>auto simp: stored_entry_store\<close>)

lemma process_result_file_creates:
  assumes step: "process_result_file fs data_dir (prof @ ''_'' @ scheme) results = Inr results'"
    and noscore: "CHR ''_'' \<notin> set prof"
    and doc: "fs (data_dir @ ''/'' @ (prof @ ''_'' @ scheme) @ ''/result.json'') =
                Some (JsonDoc result_data)"
  shows "stored_entry results' prof scheme \<noteq> None"
proof -
  from step doc split_dir_name [OF noscore, of scheme]
  have "\<exists>e. results' = store_entry results prof scheme e"
    by (auto simp: process_result_file_def Let_def bind_err_Inr)
  then show ?thesis
    by (auto simp: stored_entry_store)
qed

lemma collect_results_shown:
  assumes "collect_results fs data_dir ds results = Inr results'"
    and "CHR ''_'' \<notin> set prof"
    and "fs (data_dir @ ''/'' @ (prof @ ''_'' @ scheme) @ ''/result.json'') =
           Some (JsonDoc result_data)"
    and "adjusted_throughput prof result_data = Inr v"
    and "\<forall>e. stored_entry results prof scheme = Some e \<longrightarrow> entry_avg_throughput e = v"
  shows "\<forall>e. stored_entry results' prof scheme = Some e \<longrightarrow> entry_avg_throughput e = v"
  using assms(1,5)
proof (induction ds arbitrary: results)
  case Nil
  then show ?case by simp
next
  case (Cons d ds)
  from Cons.prems(1) obtain r1 where
    step: "process_result_file fs data_dir d results = Inr r1" and
    rest: "collect_results fs data_dir ds r1 = Inr results'"
    by (auto simp: bind_err_Inr)
  from process_result_file_shown [OF step assms(2,3,4) Cons.prems(2)]
  show ?case by (rule Cons.IH [OF rest])
qed

lemma collect_results_keeps:
  "collect_results fs data_dir ds results = Inr results' \<Longrightarrow>
     stored_entry results prof scheme \<noteq> None \<Longrightarrow> stored_entry results' prof scheme \<noteq> None"
proof (induction ds arbitrary: results)
  case Nil
  then show ?case by simp
next
  case (Cons d ds)
  from Cons.prems(1) obtain r1 where
    step: "process_result_file fs data_dir d results = Inr r1" and
    rest: "collect_results fs data_dir ds r1 = Inr results'"
    by (auto simp: bind_err_Inr)
  from process_result_file_keeps [OF step Cons.prems(2)]
  show ?case by (rule Cons.IH [OF rest])
qed

lemma collect_results_creates:
  assumes "collect_results fs data_dir ds results = Inr results'"
    and "prof @ ''_'' @ scheme \<in> set ds"
    and "CHR ''_'' \<notin> set prof"
    and "fs (data_dir @ ''/'' @ (prof @ ''_'' @ scheme) @ ''/result.json'') =
           Some (JsonDoc result_data)"
  shows "stored_entry results' prof scheme \<noteq> None"
  using assms(1,2)
proof (induction ds arbitrary: results)
  case Nil
  then show ?case by simp
next
  case (Cons d ds)
  from Cons.prems(1) obtain r1 where
    step: "process_result_file fs data_dir d results = Inr r1" and
    rest: "collect_results fs data_dir ds r1 = Inr results'"
    by (auto simp: bind_err_Inr)
  show ?case
  proof (cases "d = prof @ ''_'' @ scheme")
    case True
    have "stored_entry r1 prof scheme \<noteq> None"
    proof (rule process_result_file_creates)
      show "process_result_file fs data_dir (prof @ ''_'' @ scheme) results = Inr r1"
        using step True by simp
      show "CHR ''_'' \<notin> set prof" by (rule assms(3))
      show "fs (data_dir @ ''/'' @ (prof @ ''_'' @ scheme) @ ''/result.json'') =
              Some (JsonDoc result_data)"
        by (rule assms(4))
    qed
    with rest show ?thesis by (rule collect_results_keeps)
  next
    case False
    with Cons.prems(2) have "prof @ ''_'' @ scheme \<in> set ds" by simp
    with rest show ?thesis by (rule Cons.IH)
  qed
qed

text \<open>Which files the tables and the charts touch.\<close>

lemma comparison_csv_last: "last (comparison_csv output_dir prof) = CHR ''v''"
  by (simp add: comparison_csv_def)

lemma chart_png_last: "last (chart_png output_dir name) = CHR ''g''"
  by (simp add: chart_png_def)

lemma comparison_csv_inj:
  "comparison_csv output_dir prof = comparison_csv output_dir prof' \<longleftrightarrow> prof = prof'"
  by (simp add: comparison_csv_def)

lemma not_comparison_csv: "last path \<noteq> CHR ''v'' \<Longrightarrow> path \<noteq> comparison_csv output_dir prof"
  using comparison_csv_last by blast

lemma not_chart_png: "last path \<noteq> CHR ''g'' \<Longrightarrow> path \<noteq> chart_png output_dir name"
  using chart_png_last by blast

lemma write_tables_other:
  "last path \<noteq> CHR ''v'' \<Longrightarrow> write_tables output_dir results fs path = fs path"
proof (induction output_dir results fs rule: write_tables.induct)
  case (1 output_dir fs)
  then show ?case by simp
next
  case (2 output_dir prof schemes rest fs)
  from "2.prems" have "path \<noteq> comparison_csv output_dir prof"
    by (rule not_comparison_csv)
  with "2.IH" [OF "2.prems"] show ?case by simp
qed

lemma write_plots_other:
  "last path \<noteq> CHR ''g'' \<Longrightarrow> write_plots output_dir results fs path = fs path"
proof (induction output_dir results fs rule: write_plots.induct)
  case (1 output_dir fs)
  then show ?case by simp
next
  case (2 output_dir prof schemes rest fs)
  from "2.prems" have neq: "path \<noteq> chart_png output_dir (prof @ ''_throughput_time'')"
    "path \<noteq> chart_png output_dir (prof @ ''_loss_time'')"
    "path \<noteq> chart_png output_dir (prof @ ''_rtt_comparison'')"
    by (rule not_chart_png)+
  have "write_plots output_dir ((prof, schemes) # rest) fs path =
          (fs(chart_png output_dir (prof @ ''_throughput_time'') \<mapsto> Png,
              chart_png output_dir (prof @ ''_loss_time'') \<mapsto> Png,
              chart_png output_dir (prof @ ''_rtt_comparison'') \<mapsto> Png)) path"
    using "2.IH" [OF "2.prems"] by (simp only: write_plots.simps)
  also have "\<dots> = fs path"
    using neq by simp
  finally show ?case .
qed

lemma write_tables_absent:
  "prof \<notin> fst ` set results \<Longrightarrow>
     write_tables output_dir results fs (comparison_csv output_dir prof) =
       fs (comparison_csv output_dir prof)"
proof (induction output_dir results fs rule: write_tables.induct)
  case (1 output_dir fs)
  then show ?case by simp
next
  case (2 output_dir p schemes rest fs)
  from "2.prems" have "p \<noteq> prof" "prof \<notin> fst ` set rest"
    by auto
  with "2.IH" show ?case
    by (simp add: comparison_csv_inj)
qed

lemma write_tables_present:
  "distinct (map fst results) \<Longrightarrow> (prof, schemes) \<in> set results \<Longrightarrow> schemes \<noteq> [] \<Longrightarrow>
     write_tables output_dir results fs (comparison_csv output_dir prof) =
       Some (Frame comparison_columns (map table_row schemes))"
proof (induction output_dir results fs rule: write_tables.induct)
  case (1 output_dir fs)
  then show ?case by simp
next
  case (2 output_dir p ss rest fs)
  show ?case
  proof (cases "p = prof")
    case True
    with "2.prems" have "ss = schemes" "prof \<notin> fst ` set rest"
      by (auto simp: rev_image_eqI)
    with True "2.prems"(3) show ?thesis
      by (simp add: write_tables_absent)
  next
    case False
    with "2.prems" have "distinct (map fst rest)" "(prof, schemes) \<in> set rest"
      by auto
    from "2.IH" [OF this "2.prems"(3)] show ?thesis
      by simp
  qed
qed

lemma adjusted_throughput_numeric:
  assumes "prof = ''profile1'' \<and> limit = 50 \<or> prof = ''profile2'' \<and> limit = 1"
    and "dict_get result_data ''avg_throughput'' (JNum 0) = Inr (JNum raw)"
  shows "adjusted_throughput prof result_data = Inr (JNum (min raw limit))"
  using assms by (auto simp: adjusted_throughput_def py_min_def num_def min_def)

text \<open>
  C3. When the analysis completes, the comparison table of profile1 (limit 50) or
  profile2 (limit 1) has, for every stored summary of that profile whose
  \<open>avg_throughput\<close> is the number \<open>raw\<close>, a row of the scheme showing \<open>min raw limit\<close>;
  and every stored \<^verbatim>\<open>result.json\<close> is the same document after the analysis as before.
  The witness is the stored 3.4 Mbps under profile2, shown as 1.
\<close>

theorem comparison_shows_clipped_throughput:
  assumes run: "analyze_results listing data_dir output_dir fs = (Inr code, fs')"
    and listed: "prof @ ''_'' @ scheme \<in> set listing"
    and known: "prof = ''profile1'' \<and> limit = 50 \<or> prof = ''profile2'' \<and> limit = 1"
    and stored: "fs (data_dir @ ''/'' @ (prof @ ''_'' @ scheme) @ ''/result.json'') =
                   Some (JsonDoc result_data)"
    and raw: "dict_get result_data ''avg_throughput'' (JNum 0) = Inr (JNum raw)"
  shows "code = 0 \<and>
         (\<exists>rows avg_delay_v loss_rate_v.
            fs' (comparison_csv output_dir prof) = Some (Frame comparison_columns rows) \<and>
            [JStr scheme, JNum (min raw limit), avg_delay_v, loss_rate_v] \<in> set rows) \<and>
         (\<forall>dir. fs' (dir @ ''/result.json'') = fs (dir @ ''/result.json''))"
proof -
  from known have noscore: "CHR ''_'' \<notin> set prof"
    by auto
  have shown: "adjusted_throughput prof result_data = Inr (JNum (min raw limit))"
    using known raw by (rule adjusted_throughput_numeric)
  from listed have listing: "listing \<noteq> []"
    by auto
  with run obtain results where
    collect: "collect_results fs data_dir listing [] = Inr results"
    by (auto simp: analyze_results_def split: sum.splits)
  have created: "stored_entry results prof scheme \<noteq> None"
    by (rule collect_results_creates [OF collect listed noscore stored])
  then have "results \<noteq> []"
    by (auto simp: stored_entry_def)
  with run listing collect have
    code: "code = 0" and
    fs': "fs' = write_plots output_dir results
                  ((write_tables output_dir results fs)
                     (chart_png output_dir ''throughput_vs_rtt'' \<mapsto> Png))"
    by (simp_all add: analyze_results_def)
  have "\<forall>e. stored_entry results prof scheme = Some e \<longrightarrow>
          entry_avg_throughput e = JNum (min raw limit)"
    by (rule collect_results_shown [OF collect noscore stored shown])
       (simp add: stored_entry_def)
  with created obtain e where
    e: "stored_entry results prof scheme = Some e"
       "entry_avg_throughput e = JNum (min raw limit)"
    by auto
  then obtain schemes where
    schemes: "map_of results prof = Some schemes" "map_of schemes scheme = Some e"
    by (auto simp: stored_entry_def split: option.splits)
  then have mem: "(prof, schemes) \<in> set results" "(scheme, e) \<in> set schemes"
    by (auto dest: map_of_SomeD)
  then have nonempty: "schemes \<noteq> []"
    by auto
  have "distinct (map fst results)"
    by (rule collect_results_distinct [OF collect]) simp
  then have table: "write_tables output_dir results fs (comparison_csv output_dir prof) =
                      Some (Frame comparison_columns (map table_row schemes))"
    using mem(1) nonempty by (rule write_tables_present)
  have csv: "fs' (comparison_csv output_dir prof) =
               Some (Frame comparison_columns (map table_row schemes))"
  proof -
    have "last (comparison_csv output_dir prof) \<noteq> CHR ''g''"
      by (simp add: comparison_csv_last)
    then have "fs' (comparison_csv output_dir prof) =
                 ((write_tables output_dir results fs)
                    (chart_png output_dir ''throughput_vs_rtt'' \<mapsto> Png))
                 (comparison_csv output_dir prof)"
      unfolding fs' by (rule write_plots_other)
    also have "\<dots> = write_tables output_dir results fs (comparison_csv output_dir prof)"
      using not_chart_png [OF \<open>last (comparison_csv output_dir prof) \<noteq> CHR ''g''\<close>]
      by simp
    finally show ?thesis
      using table by simp
  qed
  have row: "[JStr scheme, JNum (min raw limit), entry_avg_delay e, entry_loss_rate e]
               \<in> set (map table_row schemes)"
  proof -
    have "table_row (scheme, e) \<in> set (map table_row schemes)"
      using mem(2) by simp
    then show ?thesis
      using e(2) by (simp add: table_row_def)
  qed
  have kept: "fs' (dir @ ''/result.json'') = fs (dir @ ''/result.json'')" for dir
  proof -
    have g: "last (dir @ ''/result.json'') \<noteq> CHR ''g''"
      and v: "last (dir @ ''/result.json'') \<noteq> CHR ''v''"
      by simp_all
    have "fs' (dir @ ''/result.json'') =
            ((write_tables output_dir results fs)
               (chart_png output_dir ''throughput_vs_rtt'' \<mapsto> Png)) (dir @ ''/result.json'')"
      unfolding fs' using g by (rule write_plots_other)
    also have "\<dots> = write_tables output_dir results fs (dir @ ''/result.json'')"
      using not_chart_png [OF g] by simp
    also have "\<dots> = fs (dir @ ''/result.json'')"
      using v by (rule write_tables_other)
    finally show ?thesis .
  qed
  from code csv row kept show ?thesis
    by blast
qed

theorem comparison_shows_clipped_throughput_witness:
  "fst (analyze_results [''profile2_cubic'', ''profile1_bbr''] ''data'' ''graphs'' sample_store) =
     Inr 0 \<and>
   sample_store ''data/profile2_cubic/result.json'' =
     Some (JsonDoc (JObj [(''cc_algorithm'', JStr ''cubic''), (''profile'', JStr ''profile2''),
                          (''avg_throughput'', JNum (34 / 10)), (''avg_delay'', JNum 400),
                          (''loss_rate'', JNum 0)])) \<and>
   (\<exists>rows avg_delay_v loss_rate_v.
      snd (analyze_results [''profile2_cubic'', ''profile1_bbr''] ''data'' ''graphs'' sample_store)
        (comparison_csv ''graphs'' ''profile2'') = Some (Frame comparison_columns rows) \<and>
      [JStr ''cubic'', JNum 1, avg_delay_v, loss_rate_v] \<in> set rows) \<and>
   snd (analyze_results [''profile2_cubic'', ''profile1_bbr''] ''data'' ''graphs'' sample_store)
     ''data/profile2_cubic/result.json'' = sample_store ''data/profile2_cubic/result.json''"
proof -
  let ?doc = "JObj [(''cc_algorithm'', JStr ''cubic''), (''profile'', JStr ''profile2''),
                    (''avg_throughput'', JNum (34 / 10)), (''avg_delay'', JNum 400),
                    (''loss_rate'', JNum 0)]"
  obtain r fs' where
    run: "analyze_results [''profile2_cubic'', ''profile1_bbr''] ''data'' ''graphs'' sample_store =
            (r, fs')"
    by (cases "analyze_results [''profile2_cubic'', ''profile1_bbr''] ''data'' ''graphs''
                 sample_store")
  have r: "r = Inr 0"
    using run
    by (auto simp: analyze_results_def process_result_file_def adjusted_throughput_def
          py_min_def num_def dict_get_def sample_store_def store_entry_def Let_def
          split: if_splits)
  have stored: "sample_store (''data'' @ ''/'' @ (''profile2'' @ ''_'' @ ''cubic'') @ ''/result.json'') =
                  Some (JsonDoc ?doc)"
    by (simp add: sample_store_def)
  have raw: "dict_get ?doc ''avg_throughput'' (JNum 0) = Inr (JNum (34 / 10))"
    by (simp add: dict_get_def)
  have listed: "''profile2'' @ ''_'' @ ''cubic'' \<in> set [''profile2_cubic'', ''profile1_bbr'']"
    by simp
  have known: "''profile2'' = ''profile1'' \<and> (1::rat) = 50 \<or> ''profile2'' = ''profile2'' \<and> (1::rat) = 1"
    by simp
  from comparison_shows_clipped_throughput [OF run [unfolded r] listed known stored raw]
  have "(\<exists>rows avg_delay_v loss_rate_v.
            fs' (comparison_csv ''graphs'' ''profile2'') = Some (Frame comparison_columns rows) \<and>
            [JStr ''cubic'', JNum (min (34 / 10) 1), avg_delay_v, loss_rate_v] \<in> set rows)"
    and "fs' (''data/profile2_cubic'' @ ''/result.json'') =
           sample_store (''data/profile2_cubic'' @ ''/result.json'')"
    by blast+
  moreover have "min (34 / 10) (1::rat) = 1"
    by simp
  ultimately show ?thesis
    using stored r by (simp add: run)
qed

end
